theory Spec2Isabelle
  imports Complex_Main
begin

section \<open>Numbers: the float64 values of numpy and pandas\<close>

text \<open>
  A cell of a numeric column is a float64. The model keeps the special values apart
  (NaN and the two infinities) and takes a finite value as an exact real: rounding,
  overflow and the sign of zero are not modelled. The arithmetic on the special values
  is IEEE 754's, as numpy applies it (a division by zero gives an infinity or NaN and
  raises nothing; every comparison with NaN is false).
\<close>

datatype fl = NaN | Fin real | PInf | NInf

fun isnan :: "fl \<Rightarrow> bool" where
  "isnan NaN = True"
| "isnan _ = False"

fun fl_neg :: "fl \<Rightarrow> fl" where
  "fl_neg NaN = NaN"
| "fl_neg (Fin a) = Fin (- a)"
| "fl_neg PInf = NInf"
| "fl_neg NInf = PInf"

fun fl_add :: "fl \<Rightarrow> fl \<Rightarrow> fl" where
  "fl_add NaN _ = NaN"
| "fl_add _ NaN = NaN"
| "fl_add (Fin a) (Fin b) = Fin (a + b)"
| "fl_add PInf NInf = NaN"
| "fl_add NInf PInf = NaN"
| "fl_add PInf _ = PInf"
| "fl_add _ PInf = PInf"
| "fl_add NInf _ = NInf"
| "fl_add _ NInf = NInf"

definition fl_sub :: "fl \<Rightarrow> fl \<Rightarrow> fl" where
  "fl_sub a b = fl_add a (fl_neg b)"

text \<open>The sign of an infinite product or quotient: positive when the signs agree.\<close>

definition signed_inf :: "bool \<Rightarrow> fl" where
  "signed_inf pos = (if pos then PInf else NInf)"

fun fl_mul :: "fl \<Rightarrow> fl \<Rightarrow> fl" where
  "fl_mul NaN _ = NaN"
| "fl_mul _ NaN = NaN"
| "fl_mul (Fin a) (Fin b) = Fin (a * b)"
| "fl_mul PInf (Fin b) = (if b = 0 then NaN else signed_inf (0 < b))"
| "fl_mul NInf (Fin b) = (if b = 0 then NaN else signed_inf (b < 0))"
| "fl_mul (Fin a) PInf = (if a = 0 then NaN else signed_inf (0 < a))"
| "fl_mul (Fin a) NInf = (if a = 0 then NaN else signed_inf (a < 0))"
| "fl_mul PInf PInf = PInf"
| "fl_mul NInf NInf = PInf"
| "fl_mul PInf NInf = NInf"
| "fl_mul NInf PInf = NInf"

fun fl_div :: "fl \<Rightarrow> fl \<Rightarrow> fl" where
  "fl_div NaN _ = NaN"
| "fl_div _ NaN = NaN"
| "fl_div (Fin a) (Fin b) =
     (if b \<noteq> 0 then Fin (a / b) else if a = 0 then NaN else signed_inf (0 < a))"
| "fl_div (Fin a) PInf = Fin 0"
| "fl_div (Fin a) NInf = Fin 0"
| "fl_div PInf (Fin b) = signed_inf (0 \<le> b)"
| "fl_div NInf (Fin b) = signed_inf (b < 0)"
| "fl_div _ _ = NaN"

fun fl_lt :: "fl \<Rightarrow> fl \<Rightarrow> bool" where
  "fl_lt NaN _ = False"
| "fl_lt _ NaN = False"
| "fl_lt (Fin a) (Fin b) = (a < b)"
| "fl_lt _ NInf = False"
| "fl_lt PInf _ = False"
| "fl_lt NInf _ = True"
| "fl_lt _ PInf = True"

definition fl_gt :: "fl \<Rightarrow> fl \<Rightarrow> bool" where
  "fl_gt a b = fl_lt b a"

fun fl_le :: "fl \<Rightarrow> fl \<Rightarrow> bool" where
  "fl_le NaN _ = False"
| "fl_le _ NaN = False"
| "fl_le a b = (\<not> fl_lt b a)"

definition fl_ge :: "fl \<Rightarrow> fl \<Rightarrow> bool" where
  "fl_ge a b = fl_le b a"

fun fl_sqrt :: "fl \<Rightarrow> fl" where
  "fl_sqrt (Fin a) = (if a < 0 then NaN else Fin (sqrt a))"
| "fl_sqrt PInf = PInf"
| "fl_sqrt _ = NaN"

section \<open>Errors\<close>

text \<open>
  The exceptions of the Python source are values: a function that can raise returns
  \<open>exn + 'a\<close>, with \<open>Inl\<close> the exception.
\<close>

datatype exn =
    KeyError string
  | IndexError
  | AttributeError
  | TypeError
  | ValueError
  | OverflowError
  | RequestError

text \<open>\<open>s.iloc[-1]\<close> and \<open>s.iloc[-2]\<close>: positions counted from the end.\<close>

definition iloc_last :: "'a list \<Rightarrow> exn + 'a" where
  "iloc_last xs = (if xs = [] then Inl IndexError else Inr (last xs))"

definition iloc_prev :: "'a list \<Rightarrow> exn + 'a" where
  "iloc_prev xs = (if length xs < 2 then Inl IndexError else Inr (xs ! (length xs - 2)))"

section \<open>Configuration\<close>

definition PAIRS_PER_SCAN :: nat where "PAIRS_PER_SCAN = 20"
definition MIN_ABS_VOLUME_USD :: real where "MIN_ABS_VOLUME_USD = 3000"
definition MIN_LIQ_USD :: real where "MIN_LIQ_USD = 30000"
definition ROC_WINDOW :: nat where "ROC_WINDOW = 5"
definition VOL_MULT_CONFIRM :: real where "VOL_MULT_CONFIRM = 3 / 2"
definition MIN_SIGNALS_REQUIRED :: nat where "MIN_SIGNALS_REQUIRED = 2"

section \<open>The pair snapshot: a JSON object\<close>

text \<open>
  A pair descriptor is the dict that \<open>r.json()\<close> returns for one pair. The fields the
  code reads are scalars (\<open>priceUsd\<close>, \<open>fdv\<close>, \<open>marketCap\<close>, \<open>pairAddress\<close>) or objects of
  scalars (\<open>liquidity\<close>, \<open>baseToken\<close>); a JSON number is finite. Python's \<open>None\<close> is
  \<open>JNull\<close>.
\<close>

datatype scalar = JNull | JBool bool | JNum real | JStr string

datatype jval = Scalar scalar | Obj "(string \<times> scalar) list"

type_synonym pair = "(string \<times> jval) list"

text \<open>Python's truth value, which \<open>or\<close>, \<open>not\<close> and \<open>if\<close> test.\<close>

fun truthy_scalar :: "scalar \<Rightarrow> bool" where
  "truthy_scalar JNull = False"
| "truthy_scalar (JBool b) = b"
| "truthy_scalar (JNum r) = (r \<noteq> 0)"
| "truthy_scalar (JStr s) = (s \<noteq> [])"

fun truthy :: "jval \<Rightarrow> bool" where
  "truthy (Scalar s) = truthy_scalar s"
| "truthy (Obj kvs) = (kvs \<noteq> [])"

text \<open>\<open>pair.get(k)\<close> and \<open>pair.get(k, {})\<close>.\<close>

definition pair_get :: "pair \<Rightarrow> string \<Rightarrow> jval" where
  "pair_get p k = (case map_of p k of None \<Rightarrow> Scalar JNull | Some v \<Rightarrow> v)"

definition pair_get_dict :: "pair \<Rightarrow> string \<Rightarrow> jval" where
  "pair_get_dict p k = (case map_of p k of None \<Rightarrow> Obj [] | Some v \<Rightarrow> v)"

text \<open>\<open>x.get(k)\<close> on a value that \<open>pair.get(k, {})\<close> returned: only a dict has \<open>get\<close>.\<close>

fun obj_get :: "jval \<Rightarrow> string \<Rightarrow> exn + scalar" where
  "obj_get (Obj kvs) k = Inr (case map_of kvs k of None \<Rightarrow> JNull | Some s \<Rightarrow> s)"
| "obj_get (Scalar s) k = Inl AttributeError"

text \<open>
  Python's \<open>float(x)\<close>. How a string reads as a float is Python's own and is a parameter
  here: \<open>s2f s = None\<close> where \<open>float(s)\<close> raises ValueError.
\<close>

fun py_float :: "(string \<Rightarrow> fl option) \<Rightarrow> jval \<Rightarrow> exn + fl" where
  "py_float s2f (Scalar (JNum r)) = Inr (Fin r)"
| "py_float s2f (Scalar (JBool b)) = Inr (Fin (if b then 1 else 0))"
| "py_float s2f (Scalar (JStr s)) = (case s2f s of None \<Rightarrow> Inl ValueError | Some x \<Rightarrow> Inr x)"
| "py_float s2f (Scalar JNull) = Inl TypeError"
| "py_float s2f (Obj kvs) = Inl TypeError"

section \<open>The data frame\<close>

text \<open>
  The frame that \<open>get_candles\<close> returns and \<open>enrich_with_snapshot\<close> extends. The columns
  the code reads are fields, \<open>None\<close> where the column is absent (\<open>"c" in df\<close> is false and
  \<open>df["c"]\<close> raises KeyError); the candle columns nothing reads (time, open, high, low)
  are kept by name only. The candle columns hold floats; \<open>liquidityUsd\<close> holds the
  snapshot's value as it came.
\<close>

record frame =
  nrows :: nat
  other_cols :: "string list"
  close :: "fl list option"
  volume :: "fl list option"
  volumeUsd :: "fl list option"
  liquidityUsd :: "scalar list option"
  mcap :: "fl list option"

definition df_empty :: "frame \<Rightarrow> bool" where
  "df_empty df \<longleftrightarrow>
     nrows df = 0 \<or>
     (other_cols df = [] \<and> close df = None \<and> volume df = None \<and> volumeUsd df = None
        \<and> liquidityUsd df = None \<and> mcap df = None)"

text \<open>The locals \<open>liq_usd\<close>, \<open>px\<close> and \<open>mcap\<close> of \<open>enrich_with_snapshot\<close>, in the order the
  source computes them.\<close>

definition snapshot_liq_usd :: "pair \<Rightarrow> exn + scalar" where
  "snapshot_liq_usd pair =
     (let liq = pair_get_dict pair ''liquidity''
      in case obj_get liq ''usd'' of
           Inl e \<Rightarrow> Inl e
         | Inr u \<Rightarrow>
             if truthy_scalar u then Inr u
             else (case obj_get liq ''base'' of
                     Inl e \<Rightarrow> Inl e
                   | Inr b \<Rightarrow> if truthy_scalar b then Inr b else Inr (JNum 0)))"

definition snapshot_px :: "(string \<Rightarrow> fl option) \<Rightarrow> pair \<Rightarrow> fl" where
  "snapshot_px s2f pair =
     (let quote = pair_get pair ''priceUsd''
      in if truthy quote
         then (case py_float s2f quote of Inl e \<Rightarrow> NaN | Inr x \<Rightarrow> x)
         else NaN)"

definition snapshot_mcap :: "(string \<Rightarrow> fl option) \<Rightarrow> pair \<Rightarrow> fl" where
  "snapshot_mcap s2f pair =
     (let fdv = pair_get pair ''fdv'';
          mc = pair_get pair ''marketCap''
      in case (if truthy fdv then py_float s2f fdv
               else if truthy mc then py_float s2f mc
               else Inr NaN) of
           Inl e \<Rightarrow> NaN
         | Inr x \<Rightarrow> x)"

definition enrich_with_snapshot :: "(string \<Rightarrow> fl option) \<Rightarrow> frame \<Rightarrow> pair \<Rightarrow> exn + frame" where
  "enrich_with_snapshot s2f df pair =
     (case snapshot_liq_usd pair of
        Inl e \<Rightarrow> Inl e
      | Inr liq_usd \<Rightarrow>
          (let df1 = df\<lparr>liquidityUsd := Some (replicate (nrows df) liq_usd)\<rparr>;
               px = snapshot_px s2f pair
           in case volume df1 of
                None \<Rightarrow> Inl (KeyError ''volume'')
              | Some v \<Rightarrow>
                  (let df2 = df1\<lparr>volumeUsd := Some (map (\<lambda>x. fl_mul x px) v)\<rparr>;
                       m = snapshot_mcap s2f pair
                   in Inr (df2\<lparr>mcap := Some (replicate (nrows df) m)\<rparr>))))"

section \<open>Indicator library\<close>

text \<open>
  \<open>s.rolling(n)\<close> with pandas' defaults: a trailing window of \<open>n\<close> positions and
  \<open>min_periods = n\<close>, so a position is NaN until \<open>n\<close> values exist and wherever its
  window holds a NaN. Each statistic is that of its window (pandas computes the same
  values incrementally).
\<close>

definition rolling :: "nat \<Rightarrow> (fl list \<Rightarrow> fl) \<Rightarrow> fl list \<Rightarrow> fl list" where
  "rolling n f xs =
     map (\<lambda>i. if i + 1 < n then NaN
              else (let w = take n (drop (i + 1 - n) xs)
                    in if list_ex isnan w then NaN else f w))
         [0..<length xs]"

definition fl_sum :: "fl list \<Rightarrow> fl" where
  "fl_sum w = foldl fl_add (Fin 0) w"

definition win_mean :: "fl list \<Rightarrow> fl" where
  "win_mean w = fl_div (fl_sum w) (Fin (real (length w)))"

text \<open>\<open>Rolling.std()\<close> has \<open>ddof = 1\<close> by default: the divisor is the window size less one.\<close>

definition win_std :: "fl list \<Rightarrow> fl" where
  "win_std w =
     (let m = win_mean w;
          ss = fl_sum (map (\<lambda>x. fl_mul (fl_sub x m) (fl_sub x m)) w)
      in fl_sqrt (fl_div ss (Fin (real (length w) - 1))))"

definition fl_max :: "fl \<Rightarrow> fl \<Rightarrow> fl" where
  "fl_max a b = (if fl_lt a b then b else a)"

definition win_max :: "fl list \<Rightarrow> fl" where
  "win_max w = foldl fl_max NInf w"

text \<open>\<open>s.pct_change(k)\<close>: the ratio to the value \<open>k\<close> positions back, less one.\<close>

definition pct_change :: "nat \<Rightarrow> fl list \<Rightarrow> fl list" where
  "pct_change k xs =
     map (\<lambda>i. if i < k then NaN else fl_sub (fl_div (xs ! i) (xs ! (i - k))) (Fin 1))
         [0..<length xs]"

text \<open>\<open>s.rolling(n).count()\<close>: how many of the window's values are not NaN; a window at
  the start of the series is shorter than \<open>n\<close>.\<close>

definition rolling_count :: "nat \<Rightarrow> fl list \<Rightarrow> fl list" where
  "rolling_count n xs =
     map (\<lambda>i. Fin (real (length (filter (\<lambda>x. \<not> isnan x)
                                (take (min n (i + 1)) (drop (i + 1 - n) xs))))))
         [0..<length xs]"

text \<open>\<open>s.diff()\<close>, \<open>s.clip(lower=l)\<close>, \<open>s.fillna(0)\<close>, \<open>s.replace(a, b)\<close>, \<open>s.dropna()\<close>,
  \<open>s.cumsum()\<close> and \<open>np.sign\<close>.\<close>

definition diff :: "fl list \<Rightarrow> fl list" where
  "diff xs = map (\<lambda>i. if i = 0 then NaN else fl_sub (xs ! i) (xs ! (i - 1))) [0..<length xs]"

definition clip_lower :: "real \<Rightarrow> fl \<Rightarrow> fl" where
  "clip_lower l x = (if fl_lt x (Fin l) then Fin l else x)"

definition fillna :: "real \<Rightarrow> fl list \<Rightarrow> fl list" where
  "fillna a xs = map (\<lambda>x. if isnan x then Fin a else x) xs"

definition replace_val :: "real \<Rightarrow> real \<Rightarrow> fl list \<Rightarrow> fl list" where
  "replace_val a b xs = map (\<lambda>x. if x = Fin a then Fin b else x) xs"

definition dropna :: "fl list \<Rightarrow> fl list" where
  "dropna xs = filter (\<lambda>x. \<not> isnan x) xs"

fun cumsum_from :: "fl \<Rightarrow> fl list \<Rightarrow> fl list" where
  "cumsum_from acc [] = []"
| "cumsum_from acc (x # xs) = fl_add acc x # cumsum_from (fl_add acc x) xs"

definition cumsum :: "fl list \<Rightarrow> fl list" where
  "cumsum xs = cumsum_from (Fin 0) xs"

fun fl_sign :: "fl \<Rightarrow> fl" where
  "fl_sign NaN = NaN"
| "fl_sign (Fin a) = Fin (sgn a)"
| "fl_sign PInf = Fin 1"
| "fl_sign NInf = Fin (- 1)"

text \<open>
  \<open>np.nanpercentile(a, q)\<close> on values without NaN, numpy's default linear method: the
  value at position \<open>q / 100 * (n - 1)\<close> of the sorted values, interpolated between its
  two neighbours. NaN for no value at all.
\<close>

fun fl_insert :: "fl \<Rightarrow> fl list \<Rightarrow> fl list" where
  "fl_insert x [] = [x]"
| "fl_insert x (y # ys) = (if fl_le x y then x # y # ys else y # fl_insert x ys)"

definition fl_sort :: "fl list \<Rightarrow> fl list" where
  "fl_sort xs = foldr fl_insert xs []"

definition percentile :: "nat \<Rightarrow> fl list \<Rightarrow> fl" where
  "percentile q a =
     (if a = [] then NaN
      else (let s = fl_sort a;
                k = q * (length a - 1);
                lo = k div 100;
                hi = min (lo + 1) (length a - 1);
                t = real (k mod 100) / 100
            in fl_add (s ! lo) (fl_mul (fl_sub (s ! hi) (s ! lo)) (Fin t))))"

text \<open>
  \<open>series.ewm(span=n, adjust=False).mean()\<close>, with \<open>alpha = 2 / (n + 1)\<close>: the first value
  seeds the average, each later value \<open>x\<close> turns the average \<open>w\<close> into
  \<open>(1 - alpha) * w + alpha * x\<close>. Over a NaN the average stands and the weight of the
  past decays (pandas' \<open>ignore_na = False\<close>).
\<close>

fun ewm_go :: "real \<Rightarrow> fl \<Rightarrow> real \<Rightarrow> fl list \<Rightarrow> fl list" where
  "ewm_go \<alpha> w old_wt [] = []"
| "ewm_go \<alpha> w old_wt (cur # xs) =
     (if \<not> isnan w then
        (let ow = old_wt * (1 - \<alpha>)
         in if \<not> isnan cur then
              (let w' = (if w \<noteq> cur
                         then fl_div (fl_add (fl_mul (Fin ow) w) (fl_mul (Fin \<alpha>) cur))
                                (Fin (ow + \<alpha>))
                         else w)
               in w' # ewm_go \<alpha> w' 1 xs)
            else w # ewm_go \<alpha> w ow xs)
      else if \<not> isnan cur then cur # ewm_go \<alpha> cur old_wt xs
      else w # ewm_go \<alpha> w old_wt xs)"

definition ema :: "fl list \<Rightarrow> nat \<Rightarrow> fl list" where
  "ema series n =
     (case series of [] \<Rightarrow> [] | x # xs \<Rightarrow> x # ewm_go (2 / (real n + 1)) x 1 xs)"

definition bollinger :: "fl list \<Rightarrow> nat \<Rightarrow> real \<Rightarrow> fl list \<times> fl list \<times> fl list" where
  "bollinger series n k =
     (let ma = rolling n win_mean series;
          sd = rolling n win_std series
      in (ma,
          map2 fl_add ma (map (fl_mul (Fin k)) sd),
          map2 fl_sub ma (map (fl_mul (Fin k)) sd)))"

text \<open>The locals \<open>avg_gain\<close>, \<open>avg_loss\<close> (after \<open>replace(0, 1e-9)\<close>) and \<open>rs\<close> of
  \<open>rsi\<close>.\<close>

definition rsi_avg_gain :: "fl list \<Rightarrow> nat \<Rightarrow> fl list" where
  "rsi_avg_gain series n = rolling n win_mean (map (clip_lower 0) (diff series))"

definition rsi_avg_loss :: "fl list \<Rightarrow> nat \<Rightarrow> fl list" where
  "rsi_avg_loss series n =
     replace_val 0 (1 / 10 ^ 9)
       (rolling n win_mean (map (clip_lower 0) (map fl_neg (diff series))))"

definition rsi_rs :: "fl list \<Rightarrow> nat \<Rightarrow> fl list" where
  "rsi_rs series n = map2 fl_div (rsi_avg_gain series n) (rsi_avg_loss series n)"

definition rsi :: "fl list \<Rightarrow> nat \<Rightarrow> fl list" where
  "rsi series n =
     map (\<lambda>r. fl_sub (Fin 100) (fl_div (Fin 100) (fl_add (Fin 1) r))) (rsi_rs series n)"

definition obv :: "fl list \<Rightarrow> fl list \<Rightarrow> fl list" where
  "obv cl vol =
     (let sign = map fl_sign (fillna 0 (diff cl))
      in cumsum (fillna 0 (map2 fl_mul sign vol)))"

section \<open>Rules\<close>

type_synonym rule_result = "bool \<times> (string \<times> fl) list"

definition rule_mcap_roc_thr :: "real \<Rightarrow> frame \<Rightarrow> exn + rule_result" where
  "rule_mcap_roc_thr thr df =
     (case mcap df of
        None \<Rightarrow> Inr (False, [])
      | Some m \<Rightarrow>
          if list_all isnan m then Inr (False, [])
          else (case iloc_last (pct_change ROC_WINDOW m) of
                  Inl e \<Rightarrow> Inl e
                | Inr x \<Rightarrow>
                    (let roc = fl_mul x (Fin 100)
                     in Inr (fl_gt roc (Fin thr), [(''roc%'', roc)]))))"

definition rule_mcap_roc :: "frame \<Rightarrow> exn + rule_result" where
  "rule_mcap_roc df = rule_mcap_roc_thr 5 df"

text \<open>\<open>df["c"]\<close>: the column, or KeyError.\<close>

definition col :: "string \<Rightarrow> 'a option \<Rightarrow> exn + 'a" where
  "col name c = (case c of None \<Rightarrow> Inl (KeyError name) | Some xs \<Rightarrow> Inr xs)"

text \<open>The local \<open>cross\<close> of \<open>rule_ema_cross\<close>.\<close>

definition ema_cross :: "fl list \<Rightarrow> exn + bool" where
  "ema_cross c =
     (let e9 = ema c 9; e21 = ema c 21
      in case iloc_prev e9 of Inl e \<Rightarrow> Inl e | Inr a2 \<Rightarrow>
        (case iloc_prev e21 of Inl e \<Rightarrow> Inl e | Inr b2 \<Rightarrow>
           if fl_lt a2 b2
           then (case iloc_last e9 of Inl e \<Rightarrow> Inl e | Inr a1 \<Rightarrow>
                  (case iloc_last e21 of Inl e \<Rightarrow> Inl e | Inr b1 \<Rightarrow> Inr (fl_gt a1 b1)))
           else Inr False))"

text \<open>The local \<open>vavg\<close> of \<open>rule_ema_cross\<close>: \<open>x or 1\<close> is 1 for a zero \<open>x\<close>, and \<open>x\<close> for
  every other float (NaN is true in Python).\<close>

definition ema_vavg :: "fl list \<Rightarrow> exn + fl" where
  "ema_vavg v =
     (case iloc_last (rolling 20 win_mean v) of
        Inl e \<Rightarrow> Inl e
      | Inr x \<Rightarrow> Inr (if x = Fin 0 then Fin 1 else x))"

definition rule_ema_cross :: "frame \<Rightarrow> exn + rule_result" where
  "rule_ema_cross df =
     (case col ''close'' (close df) of Inl e \<Rightarrow> Inl e | Inr c \<Rightarrow>
     (case col ''volumeUsd'' (volumeUsd df) of Inl e \<Rightarrow> Inl e | Inr vu \<Rightarrow>
       (let v = fillna 0 vu
        in case ema_cross c of Inl e \<Rightarrow> Inl e | Inr cross \<Rightarrow>
          (case ema_vavg v of Inl e \<Rightarrow> Inl e | Inr vavg \<Rightarrow>
            (case iloc_last v of Inl e \<Rightarrow> Inl e | Inr vlast \<Rightarrow>
              (let vol_ok = fl_gt vlast (fl_mul (Fin VOL_MULT_CONFIRM) vavg)
               in Inr (cross \<and> vol_ok, [(''vol_mult'', fl_div vlast vavg)])))))))"

text \<open>The locals \<open>bw\<close>, \<open>pct20\<close> and \<open>squeeze\<close> of \<open>rule_boll_breakout\<close>.\<close>

definition boll_bw :: "fl list \<Rightarrow> fl list" where
  "boll_bw c = (case bollinger c 20 2 of (ma, up, dn) \<Rightarrow> map2 fl_div (map2 fl_sub up dn) ma)"

definition boll_pct20 :: "fl list \<Rightarrow> exn + fl" where
  "boll_pct20 bw =
     (case iloc_last (rolling_count 30 bw) of
        Inl e \<Rightarrow> Inl e
      | Inr cnt \<Rightarrow>
          if fl_ge cnt (Fin 30) then Inr (percentile 20 (dropna (rolling 30 last bw)))
          else Inr NaN)"

definition boll_squeeze :: "fl list \<Rightarrow> exn + bool" where
  "boll_squeeze c =
     (let bw = boll_bw c
      in case boll_pct20 bw of
           Inl e \<Rightarrow> Inl e
         | Inr pct20 \<Rightarrow>
             if isnan pct20 then Inr False
             else (case iloc_last bw of Inl e \<Rightarrow> Inl e | Inr b \<Rightarrow> Inr (fl_le b pct20)))"

definition rule_boll_breakout :: "frame \<Rightarrow> exn + rule_result" where
  "rule_boll_breakout df =
     (case col ''close'' (close df) of Inl e \<Rightarrow> Inl e | Inr c \<Rightarrow>
     (case boll_squeeze c of Inl e \<Rightarrow> Inl e | Inr squeeze \<Rightarrow>
     (case iloc_last c of Inl e \<Rightarrow> Inl e | Inr clast \<Rightarrow>
     (case iloc_last (fst (snd (bollinger c 20 2))) of Inl e \<Rightarrow> Inl e | Inr u \<Rightarrow>
       (let breakout = fl_gt clast (if \<not> isnan u then u else PInf)
        in Inr (squeeze \<and> breakout, []))))))"

definition rule_rsi_reclaim_level :: "real \<Rightarrow> frame \<Rightarrow> exn + rule_result" where
  "rule_rsi_reclaim_level level df =
     (case col ''close'' (close df) of Inl e \<Rightarrow> Inl e | Inr c \<Rightarrow>
     (case iloc_last (rsi c 14) of Inl e \<Rightarrow> Inl e | Inr r \<Rightarrow>
        Inr (fl_gt r (Fin level), [(''rsi'', r)])))"

definition rule_rsi_reclaim :: "frame \<Rightarrow> exn + rule_result" where
  "rule_rsi_reclaim df = rule_rsi_reclaim_level 50 df"

definition rule_obv_leads :: "frame \<Rightarrow> exn + rule_result" where
  "rule_obv_leads df =
     (case col ''close'' (close df) of Inl e \<Rightarrow> Inl e | Inr c \<Rightarrow>
     (case col ''volume'' (volume df) of Inl e \<Rightarrow> Inl e | Inr v \<Rightarrow>
       (let ob = obv c v
        in case iloc_last c of Inl e \<Rightarrow> Inl e | Inr clast \<Rightarrow>
          (case iloc_prev (rolling 50 win_max c) of Inl e \<Rightarrow> Inl e | Inr cmax \<Rightarrow>
          (case iloc_last ob of Inl e \<Rightarrow> Inl e | Inr olast \<Rightarrow>
          (case iloc_prev (rolling 50 win_max ob) of Inl e \<Rightarrow> Inl e | Inr omax \<Rightarrow>
            (let price_hh = fl_gt clast cmax;
                 obv_hh = fl_gt olast omax
             in Inr (obv_hh \<and> \<not> price_hh, []))))))))"

section \<open>Guards\<close>

text \<open>\<open>x >= c\<close> for a cell of the liquidity column and a number: Python orders numbers
  (a bool is 0 or 1) and raises TypeError for a string or \<open>None\<close>.\<close>

fun scalar_ge :: "scalar \<Rightarrow> real \<Rightarrow> exn + bool" where
  "scalar_ge (JNum r) c = Inr (c \<le> r)"
| "scalar_ge (JBool b) c = Inr (c \<le> (if b then 1 else 0))"
| "scalar_ge (JStr s) c = Inl TypeError"
| "scalar_ge JNull c = Inl TypeError"

definition guards :: "frame \<Rightarrow> exn + bool" where
  "guards df =
     (case (case volumeUsd df of
              Some v \<Rightarrow> Inr v
            | None \<Rightarrow> (case volume df of Some v \<Rightarrow> Inr v | None \<Rightarrow> Inl (KeyError ''volume''))) of
        Inl e \<Rightarrow> Inl e
      | Inr vcol \<Rightarrow>
     (case iloc_last (rolling 20 win_mean vcol) of
        Inl e \<Rightarrow> Inl e
      | Inr vavg \<Rightarrow>
       (let vol_ok = fl_ge vavg (Fin MIN_ABS_VOLUME_USD)
        in case liquidityUsd df of
             None \<Rightarrow> Inr False
           | Some l \<Rightarrow>
          (case iloc_last l of
             Inl e \<Rightarrow> Inl e
           | Inr x \<Rightarrow>
            (case scalar_ge x MIN_LIQ_USD of
               Inl e \<Rightarrow> Inl e
             | Inr liq_ok \<Rightarrow> Inr (vol_ok \<and> liq_ok))))))"

section \<open>Aggregation and the scan\<close>

text \<open>Sequencing of steps that can raise: the first exception ends the sequence.\<close>

definition ebind :: "exn + 'a \<Rightarrow> ('a \<Rightarrow> exn + 'b) \<Rightarrow> exn + 'b" where
  "ebind m f = (case m of Inl e \<Rightarrow> Inl e | Inr x \<Rightarrow> f x)"

type_synonym rule = "frame \<Rightarrow> exn + rule_result"

text \<open>The tuple of rule functions that \<open>scan_once\<close> iterates over, each with its
  \<open>__name__\<close>.\<close>

definition rules :: "(string \<times> rule) list" where
  "rules =
     [(''rule_ema_cross'', rule_ema_cross),
      (''rule_boll_breakout'', rule_boll_breakout),
      (''rule_rsi_reclaim'', rule_rsi_reclaim),
      (''rule_obv_leads'', rule_obv_leads),
      (''rule_mcap_roc'', rule_mcap_roc)]"

text \<open>The loop over the rules: \<open>try: ok, meta = f(df)\<close>, \<open>except Exception: ok, meta =
  False, {}\<close>, then \<open>if ok: hits.append(f.__name__)\<close>.\<close>

fun run_rules :: "(string \<times> rule) list \<Rightarrow> frame \<Rightarrow> string list \<Rightarrow> string list" where
  "run_rules [] df hits = hits"
| "run_rules ((name, f) # fs) df hits =
     (case (case f df of Inl e \<Rightarrow> (False, []) | Inr r \<Rightarrow> r) of
        (ok, meta) \<Rightarrow> run_rules fs df (if ok then hits @ [name] else hits))"

definition rule_passes :: "rule \<Rightarrow> frame \<Rightarrow> bool" where
  "rule_passes f df = (case f df of Inl e \<Rightarrow> False | Inr r \<Rightarrow> fst r)"

text \<open>
  Python's \<open>int(x)\<close> on a cell of the liquidity column: a number is cut towards zero;
  how a string reads as an integer is a parameter (\<open>None\<close> for ValueError).
\<close>

fun py_int :: "(string \<Rightarrow> int option) \<Rightarrow> scalar \<Rightarrow> exn + int" where
  "py_int s2i (JNum r) = Inr (if 0 \<le> r then \<lfloor>r\<rfloor> else \<lceil>r\<rceil>)"
| "py_int s2i (JBool b) = Inr (if b then 1 else 0)"
| "py_int s2i (JStr s) = (case s2i s of None \<Rightarrow> Inl ValueError | Some i \<Rightarrow> Inr i)"
| "py_int s2i JNull = Inl TypeError"

text \<open>
  The alert: what the message of \<open>scan_once\<close> shows, before it is formatted as text
  (the price to six decimals, the average volume to none, the rate of change, \<open>None\<close>
  for \<open>n/a\<close>, to two).
\<close>

record alert =
  symbol :: scalar
  signals :: "string list"
  price :: fl
  vol20avg :: fl
  liq :: int
  mcap_roc :: "fl option"

definition build_alert :: "(string \<Rightarrow> int option) \<Rightarrow> scalar \<Rightarrow> string list \<Rightarrow> frame \<Rightarrow> exn + alert" where
  "build_alert s2i symb hits df =
     (if nrows df = 0 then Inl IndexError
      else
        ebind (col ''close'' (close df)) (\<lambda>c.
        ebind (iloc_last c) (\<lambda>p.
        ebind (col ''volumeUsd'' (volumeUsd df)) (\<lambda>vu.
        ebind (iloc_last (rolling 20 win_mean vu)) (\<lambda>vavg.
        ebind (col ''liquidityUsd'' (liquidityUsd df)) (\<lambda>l.
        ebind (iloc_last l) (\<lambda>x.
        ebind (py_int s2i x) (\<lambda>li.
        ebind (col ''mcap'' (mcap df)) (\<lambda>m.
        ebind (if list_all isnan m then Inr None
               else ebind (iloc_last (pct_change ROC_WINDOW m))
                      (\<lambda>r. Inr (Some (fl_mul r (Fin 100))))) (\<lambda>roc.
          Inr \<lparr>symbol = symb, signals = hits, price = p, vol20avg = vavg, liq = li,
               mcap_roc = roc\<rparr>))))))))))"

text \<open>The aggregator, lines 165 to 183 of the source: the rules, the threshold, the alert.\<close>

definition aggregate ::
  "(string \<Rightarrow> int option) \<Rightarrow> (string \<times> rule) list \<Rightarrow> scalar \<Rightarrow> frame \<Rightarrow> exn + alert option" where
  "aggregate s2i rs symb df =
     (let hits = run_rules rs df []
      in if MIN_SIGNALS_REQUIRED \<le> length hits
         then ebind (build_alert s2i symb hits df) (\<lambda>a. Inr (Some a))
         else Inr None)"

text \<open>
  What a scan does that can be seen from outside: it asks for the candles of a pair, and
  it prints and sends an alert. \<open>send_tg\<close> catches what \<open>requests.get\<close> raises, so sending
  never raises. \<open>LoopError\<close> is the line that \<open>main\<close> prints for an exception it caught.
\<close>

datatype event = Fetched jval | Alert alert | LoopError exn

definition pair_symbol :: "pair \<Rightarrow> exn + scalar" where
  "pair_symbol pair =
     ebind (obj_get (pair_get_dict pair ''baseToken'') ''symbol'') (\<lambda>s.
       if truthy_scalar s then Inr s
       else ebind (obj_get (pair_get_dict pair ''baseToken'') ''name'') (\<lambda>n.
              if truthy_scalar n then Inr n else Inr (JStr ''?'')))"

text \<open>
  The body of the loop over the pairs. \<open>get_candles\<close> is the outside world: a parameter
  that returns a frame (an empty one for no candles) or raises what \<open>requests.get\<close>
  raises.
\<close>

definition scan_pair ::
  "(jval \<Rightarrow> exn + frame) \<Rightarrow> (string \<Rightarrow> fl option) \<Rightarrow> (string \<Rightarrow> int option) \<Rightarrow> pair
     \<Rightarrow> exn + event list" where
  "scan_pair get_candles s2f s2i pair =
     (let addr = (if truthy (pair_get pair ''pairAddress'') then pair_get pair ''pairAddress''
                  else pair_get pair ''address'')
      in ebind (pair_symbol pair) (\<lambda>symb.
           if \<not> truthy addr then Inr []
           else
             ebind (get_candles addr) (\<lambda>df.
               if df_empty df \<or> nrows df < 60 then Inr [Fetched addr]
               else
                 ebind (enrich_with_snapshot s2f df pair) (\<lambda>df'.
                 ebind (guards df') (\<lambda>ok.
                   if \<not> ok then Inr [Fetched addr]
                   else
                     ebind (aggregate s2i rules symb df') (\<lambda>a.
                       Inr (Fetched addr # (case a of None \<Rightarrow> [] | Some al \<Rightarrow> [Alert al]))))))))"

text \<open>The loop over the pairs has no \<open>try\<close>: an exception of one pair ends it.\<close>

fun scan_loop ::
  "(jval \<Rightarrow> exn + frame) \<Rightarrow> (string \<Rightarrow> fl option) \<Rightarrow> (string \<Rightarrow> int option) \<Rightarrow> pair list
     \<Rightarrow> event list \<Rightarrow> event list \<times> exn option" where
  "scan_loop get_candles s2f s2i [] tr = (tr, None)"
| "scan_loop get_candles s2f s2i (p # ps) tr =
     (case scan_pair get_candles s2f s2i p of
        Inl e \<Rightarrow> (tr, Some e)
      | Inr evs \<Rightarrow> scan_loop get_candles s2f s2i ps (tr @ evs))"

text \<open>\<open>scan_once\<close>: \<open>new_pairs\<close> is what \<open>get_new_solana_pairs()\<close> returns or raises in this
  cycle. The result is what the cycle did and the exception that ended it, if one did.\<close>

definition scan_once ::
  "exn + pair list \<Rightarrow> (jval \<Rightarrow> exn + frame) \<Rightarrow> (string \<Rightarrow> fl option) \<Rightarrow> (string \<Rightarrow> int option)
     \<Rightarrow> event list \<times> exn option" where
  "scan_once new_pairs get_candles s2f s2i =
     (case new_pairs of
        Inl e \<Rightarrow> ([], Some e)
      | Inr pairs \<Rightarrow>
          if pairs = [] then ([], None)
          else scan_loop get_candles s2f s2i (take PAIRS_PER_SCAN pairs) [])"

text \<open>One turn of the loop of \<open>main\<close>, and the first turns of it, one for each state of
  the outside world given.\<close>

definition main_cycle ::
  "(string \<Rightarrow> fl option) \<Rightarrow> (string \<Rightarrow> int option) \<Rightarrow> (exn + pair list) \<times> (jval \<Rightarrow> exn + frame)
     \<Rightarrow> event list" where
  "main_cycle s2f s2i world =
     (case scan_once (fst world) (snd world) s2f s2i of
        (tr, None) \<Rightarrow> tr
      | (tr, Some e) \<Rightarrow> tr @ [LoopError e])"

definition main_cycles ::
  "(string \<Rightarrow> fl option) \<Rightarrow> (string \<Rightarrow> int option)
     \<Rightarrow> ((exn + pair list) \<times> (jval \<Rightarrow> exn + frame)) list \<Rightarrow> event list" where
  "main_cycles s2f s2i worlds = concat (map (main_cycle s2f s2i) worlds)"

text \<open>What a pair adds to the trace of a cycle when its scan raises nothing, and a rule
  that never fires.\<close>

definition pair_events ::
  "(jval \<Rightarrow> exn + frame) \<Rightarrow> (string \<Rightarrow> fl option) \<Rightarrow> (string \<Rightarrow> int option) \<Rightarrow> pair
     \<Rightarrow> event list" where
  "pair_events get_candles s2f s2i p =
     (case scan_pair get_candles s2f s2i p of Inl e \<Rightarrow> [] | Inr evs \<Rightarrow> evs)"

definition pair_scans ::
  "(jval \<Rightarrow> exn + frame) \<Rightarrow> (string \<Rightarrow> fl option) \<Rightarrow> (string \<Rightarrow> int option) \<Rightarrow> pair
     \<Rightarrow> bool" where
  "pair_scans get_candles s2f s2i p =
     (case scan_pair get_candles s2f s2i p of Inl e \<Rightarrow> False | Inr evs \<Rightarrow> True)"

definition rule_never_fires :: rule where
  "rule_never_fires df = Inr (False, [])"

section \<open>Example inputs\<close>

text \<open>A reader of strings that knows the numerals \<open>0\<close> and \<open>1\<close> only, and one that knows
  none.\<close>

definition reads_digit :: "string \<Rightarrow> fl option" where
  "reads_digit s = (if s = ''0'' then Some (Fin 0) else if s = ''1'' then Some (Fin 1) else None)"

definition reads_nothing :: "string \<Rightarrow> fl option" where
  "reads_nothing s = None"

text \<open>A frame of \<open>n\<close> candles as \<open>get_candles\<close> returns it, with every close \<open>c\<close> and every
  volume \<open>v\<close>.\<close>

definition flat_candles :: "nat \<Rightarrow> real \<Rightarrow> real \<Rightarrow> frame" where
  "flat_candles n c v =
     \<lparr>nrows = n, other_cols = [''time'', ''open'', ''high'', ''low''],
      close = Some (replicate n (Fin c)), volume = Some (replicate n (Fin v)),
      volumeUsd = None, liquidityUsd = None, mcap = None\<rparr>"

text \<open>The same frame after enrichment with price \<open>px\<close>, liquidity \<open>l\<close> and market cap \<open>m\<close>.\<close>

definition flat_enriched :: "nat \<Rightarrow> real \<Rightarrow> real \<Rightarrow> fl \<Rightarrow> scalar \<Rightarrow> fl \<Rightarrow> frame" where
  "flat_enriched n c v px l m =
     \<lparr>nrows = n, other_cols = [''time'', ''open'', ''high'', ''low''],
      close = Some (replicate n (Fin c)), volume = Some (replicate n (Fin v)),
      volumeUsd = Some (replicate n (fl_mul (Fin v) px)), liquidityUsd = Some (replicate n l),
      mcap = Some (replicate n m)\<rparr>"

text \<open>Snapshots: one with a market cap only, one with liquidity and market cap but no
  price, one with everything.\<close>

definition snap_fdv :: "scalar \<Rightarrow> pair" where
  "snap_fdv m = [(''pairAddress'', Scalar (JStr ''A'')), (''fdv'', Scalar m)]"

definition snap_no_price :: "real \<Rightarrow> pair" where
  "snap_no_price l =
     [(''pairAddress'', Scalar (JStr ''A'')), (''liquidity'', Obj [(''usd'', JNum l)]),
      (''fdv'', Scalar (JNum 1000))]"

definition snap_full :: "real \<Rightarrow> pair" where
  "snap_full l =
     [(''pairAddress'', Scalar (JStr ''A'')), (''liquidity'', Obj [(''usd'', JNum l)]),
      (''priceUsd'', Scalar (JStr ''1'')), (''fdv'', Scalar (JNum 1000))]"

definition finite_nonzero :: "fl \<Rightarrow> bool" where
  "finite_nonzero x = (case x of Fin r \<Rightarrow> r \<noteq> 0 | _ \<Rightarrow> False)"

section \<open>Statistics of a window of reals, as the specification words them\<close>

definition real_mean :: "real list \<Rightarrow> real" where
  "real_mean w = sum_list w / real (length w)"

definition sum_sq_dev :: "real list \<Rightarrow> real" where
  "sum_sq_dev w = sum_list (map (\<lambda>x. (x - real_mean w) * (x - real_mean w)) w)"

text \<open>The sample standard deviation divides by one less than the number of values, the
  population standard deviation by their number.\<close>

definition sample_std :: "real list \<Rightarrow> real" where
  "sample_std w = sqrt (sum_sq_dev w / (real (length w) - 1))"

definition population_std :: "real list \<Rightarrow> real" where
  "population_std w = sqrt (sum_sq_dev w / real (length w))"

definition nonneg_fin :: "fl \<Rightarrow> bool" where
  "nonneg_fin x = (case x of Fin r \<Rightarrow> 0 \<le> r | _ \<Rightarrow> False)"

text \<open>Twenty closes with mean 10 and squared deviations summing to 76, and fifteen rising
  closes.\<close>

definition spread20 :: "real list" where
  "spread20 = [13, 13, 13, 13, 7, 7, 7, 7, 11, 11, 9, 9, 10, 10, 10, 10, 10, 10, 10, 10]"

definition rising15 :: "real list" where
  "rising15 = [1, 2, 3, 4, 5, 6, 7, 8, 9, 10, 11, 12, 13, 14, 15]"

text \<open>Snapshots that make a step outside the rules raise: \<open>"liquidity": null\<close> (in
  enrichment) and a liquidity given as a string (in the guard); and a snapshot with an
  address and nothing else.\<close>

definition snap_null_liquidity :: pair where
  "snap_null_liquidity = [(''pairAddress'', Scalar (JStr ''A'')), (''liquidity'', Scalar JNull)]"

definition snap_string_liquidity :: pair where
  "snap_string_liquidity =
     [(''pairAddress'', Scalar (JStr ''A'')), (''liquidity'', Obj [(''usd'', JStr ''50000'')])]"

definition snap_bare :: pair where
  "snap_bare = [(''pairAddress'', Scalar (JStr ''B''))]"

text \<open>A source of candles that returns the same sixty flat candles for every pair.\<close>

definition flat_source :: "jval \<Rightarrow> exn + frame" where
  "flat_source addr = Inr (flat_candles 60 1 5000)"

definition reads_no_int :: "string \<Rightarrow> int option" where
  "reads_no_int s = None"

text \<open>Twenty-one candles: the close is flat at 10, dips to 9 and jumps to 20; the volume
  is flat at 5000 up to the last bar. Then the same frame enriched with a price of 1, a
  liquidity of 50000 and a market cap of 1000.\<close>

definition spike_close :: "fl list" where
  "spike_close = [Fin 10, Fin 10, Fin 10, Fin 10, Fin 10, Fin 10, Fin 10, Fin 10, Fin 10, Fin 10,
                  Fin 10, Fin 10, Fin 10, Fin 10, Fin 10, Fin 10, Fin 10, Fin 10, Fin 10,
                  Fin 9, Fin 20]"

definition spike_volume :: "real \<Rightarrow> fl list" where
  "spike_volume vlast = map Fin (replicate 20 5000 @ [vlast])"


definition spike_enriched :: "real \<Rightarrow> frame" where
  "spike_enriched vlast =
     \<lparr>nrows = 21, other_cols = [''time'', ''open'', ''high'', ''low''],
      close = Some spike_close, volume = Some (spike_volume vlast),
      volumeUsd = Some (spike_volume vlast), liquidityUsd = Some (replicate 21 (JNum 50000)),
      mcap = Some (replicate 21 (Fin 1000))\<rparr>"

section \<open>The squeeze, as the specification and the comment in the code word it\<close>

text \<open>
  "Squeeze if current bandwidth in the lowest 20% of last 30 bars": the current bandwidth
  is at or below the 20th percentile of the last 30 bandwidth values, and there are at
  least 30 valid bandwidth observations.
\<close>

definition squeeze_last30 :: "fl list \<Rightarrow> bool" where
  "squeeze_last30 c =
     (let bw = boll_bw c
      in 30 \<le> length (dropna bw) \<and> bw \<noteq> [] \<and>
         fl_le (last bw) (percentile 20 (dropna (drop (length bw - 30) bw))))"

text \<open>Sixty closes, flat at 1 with a spike to 21 at bar 48 and at the last bar, in an
  enriched frame that the guard admits.\<close>

definition twin_spike :: "real list" where
  "twin_spike = replicate 48 1 @ 21 # replicate 10 1 @ [21]"

definition twin_spike_frame :: frame where
  "twin_spike_frame =
     \<lparr>nrows = 60, other_cols = [''time'', ''open'', ''high'', ''low''],
      close = Some (map Fin twin_spike), volume = Some (replicate 60 (Fin 5000)),
      volumeUsd = Some (replicate 60 (Fin 5000)),
      liquidityUsd = Some (replicate 60 (JNum 50000)), mcap = Some (replicate 60 (Fin 1000))\<rparr>"

text \<open>The candles of \<open>twin_spike\<close> before enrichment, a source that returns them for
  every pair, and fifteen rising candles.\<close>

definition twin_candles :: frame where
  "twin_candles =
     \<lparr>nrows = 60, other_cols = [''time'', ''open'', ''high'', ''low''],
      close = Some (map Fin twin_spike), volume = Some (replicate 60 (Fin 5000)),
      volumeUsd = None, liquidityUsd = None, mcap = None\<rparr>"

definition twin_source :: "jval \<Rightarrow> exn + frame" where
  "twin_source addr = Inr twin_candles"

definition rising_candles :: frame where
  "rising_candles =
     \<lparr>nrows = 15, other_cols = [''time'', ''open'', ''high'', ''low''],
      close = Some (map Fin rising15), volume = Some (replicate 15 (Fin 5000)),
      volumeUsd = None, liquidityUsd = None, mcap = None\<rparr>"

section \<open>Facts about the numbers and the windows\<close>

lemma fl_nan_right [simp]:
  "fl_lt x NaN = False" "fl_le x NaN = False" "fl_add x NaN = NaN" "fl_mul x NaN = NaN"
  "fl_div x NaN = NaN"
  by (cases x; simp)+

lemma fl_nan_cmp [simp]:
  "fl_gt NaN x = False" "fl_gt x NaN = False" "fl_ge NaN x = False" "fl_ge x NaN = False"
  "fl_sub NaN x = NaN" "fl_sub x NaN = NaN"
  by (simp_all add: fl_gt_def fl_ge_def fl_sub_def)

lemma fl_fin_cmp [simp]:
  "fl_gt (Fin a) (Fin b) = (b < a)" "fl_ge (Fin a) (Fin b) = (b \<le> a)"
  "fl_sub (Fin a) (Fin b) = Fin (a - b)"
  by (auto simp: fl_gt_def fl_ge_def fl_sub_def)

lemma last_map_upt: "0 < n \<Longrightarrow> last (map f [0..<n]) = f (n - 1)"
  by (cases n) simp_all

lemma iloc_last_map_upt:
  "iloc_last (map f [0..<n]) = (if n = 0 then Inl IndexError else Inr (f (n - 1)))"
  by (simp add: iloc_last_def last_map_upt)

lemma iloc_last_replicate:
  "iloc_last (replicate n x) = (if n = 0 then Inl IndexError else Inr x)"
  by (simp add: iloc_last_def)

lemma iloc_last_rolling:
  "iloc_last (rolling n f xs) =
     (if xs = [] then Inl IndexError
      else Inr (if length xs < n then NaN
                else (let w = take n (drop (length xs - n) xs)
                      in if list_ex isnan w then NaN else f w)))"
proof (cases "xs = []")
  case True
  then show ?thesis by (simp add: rolling_def iloc_last_def)
next
  case False
  then have pos: "0 < length xs" by simp
  have idx: "length xs - 1 + 1 - n = length xs - n" using pos by simp
  have lt: "(length xs - 1 + 1 < n) = (length xs < n)" using pos by simp
  show ?thesis
    using False pos by (simp add: rolling_def iloc_last_map_upt idx lt del: One_nat_def)
qed

lemma foldl_fl_add_replicate:
  "foldl fl_add (Fin a) (replicate k (Fin c)) = Fin (a + real k * c)"
  by (induction k arbitrary: a) (simp_all add: algebra_simps)

lemma fl_sum_replicate: "fl_sum (replicate k (Fin c)) = Fin (real k * c)"
  by (simp add: fl_sum_def foldl_fl_add_replicate)

lemma win_mean_replicate: "0 < k \<Longrightarrow> win_mean (replicate k (Fin c)) = Fin c"
  by (simp add: win_mean_def fl_sum_replicate)

lemma list_ex_replicate [simp]: "list_ex P (replicate k x) = (0 < k \<and> P x)"
  by (auto simp: list_ex_iff)

lemma list_all_replicate [simp]: "list_all P (replicate k x) = (k = 0 \<or> P x)"
  by (auto simp: list_all_iff)

lemma take_drop_replicate:
  "n \<le> k \<Longrightarrow> take n (drop (k - n) (replicate k x)) = replicate n x"
  by simp

lemma last_rolling_mean_replicate:
  "0 < n \<Longrightarrow> n \<le> k \<Longrightarrow>
   iloc_last (rolling n win_mean (replicate k (Fin c))) = Inr (Fin c)"
  by (simp add: iloc_last_rolling win_mean_replicate min_absorb2)

lemma last_rolling_nan_replicate:
  "0 < n \<Longrightarrow> 0 < k \<Longrightarrow> iloc_last (rolling n f (replicate k NaN)) = Inr NaN"
  by (simp add: iloc_last_rolling Let_def)

section \<open>Enrichment and the market-cap rule\<close>

lemma enrich_columns:
  assumes "enrich_with_snapshot s2f df pair = Inr df'"
  shows "\<exists>l v. snapshot_liq_usd pair = Inr l \<and> volume df = Some v \<and>
           df' = df\<lparr>liquidityUsd := Some (replicate (nrows df) l),
                    volumeUsd := Some (map (\<lambda>x. fl_mul x (snapshot_px s2f pair)) v),
                    mcap := Some (replicate (nrows df) (snapshot_mcap s2f pair))\<rparr>"
  using assms
  by (auto simp: enrich_with_snapshot_def Let_def split: sum.splits option.splits)

lemma roc_self_not_gt: "\<not> fl_gt (fl_mul (fl_sub (fl_div m m) (Fin 1)) (Fin 100)) (Fin 5)"
  by (cases m) (auto simp: signed_inf_def)

lemma roc_self_value:
  "fl_mul (fl_sub (fl_div m m) (Fin 1)) (Fin 100) = (if finite_nonzero m then Fin 0 else NaN)"
  by (cases m) (auto simp: finite_nonzero_def signed_inf_def fl_sub_def)

lemma rule_mcap_roc_replicate:
  assumes "mcap df = Some (replicate n m)"
  shows "rule_mcap_roc df =
     (if n = 0 \<or> isnan m then Inr (False, [])
      else if 5 < n \<and> finite_nonzero m then Inr (False, [(''roc%'', Fin 0)])
      else Inr (False, [(''roc%'', NaN)]))"
  using assms
  by (auto simp: rule_mcap_roc_def rule_mcap_roc_thr_def pct_change_def iloc_last_map_upt
      ROC_WINDOW_def Let_def roc_self_not_gt roc_self_value)

text \<open>
  C1 (as amended). Enrichment writes one market-cap value \<open>m\<close> onto every bar, and on
  every enriched series the market-cap rule returns passed = false: with no bar or with
  \<open>m\<close> absent (NaN) it measures nothing and reports no metric; with more than five bars and
  \<open>m\<close> a finite number other than zero the change it measures is exactly zero; in what
  is left (five bars or fewer, or \<open>m\<close> zero or infinite) the change it measures is NaN.
\<close>

theorem enriched_mcap_roc_never_fires:
  assumes "enrich_with_snapshot s2f df pair = Inr df'"
  shows "\<exists>m. mcap df' = Some (replicate (nrows df) m) \<and>
           rule_mcap_roc df' =
             (if nrows df = 0 \<or> isnan m then Inr (False, [])
              else if 5 < nrows df \<and> finite_nonzero m then Inr (False, [(''roc%'', Fin 0)])
              else Inr (False, [(''roc%'', NaN)]))"
proof -
  from enrich_columns [OF assms]
  have m: "mcap df' = Some (replicate (nrows df) (snapshot_mcap s2f pair))"
    by auto
  from rule_mcap_roc_replicate [OF m] m show ?thesis by blast
qed

lemma enrich_flat_fdv:
  "enrich_with_snapshot s2f (flat_candles n c v) (snap_fdv (JNum 1000))
     = Inr (flat_enriched n c v NaN (JNum 0) (Fin 1000))"
  by (simp add: enrich_with_snapshot_def snapshot_liq_usd_def snapshot_px_def
      snapshot_mcap_def flat_candles_def flat_enriched_def snap_fdv_def pair_get_def
      pair_get_dict_def)

lemma enrich_flat_fdv_zero:
  "enrich_with_snapshot reads_digit (flat_candles n c v) (snap_fdv (JStr ''0''))
     = Inr (flat_enriched n c v NaN (JNum 0) (Fin 0))"
  by (simp add: enrich_with_snapshot_def snapshot_liq_usd_def snapshot_px_def
      snapshot_mcap_def flat_candles_def flat_enriched_def snap_fdv_def pair_get_def
      pair_get_dict_def reads_digit_def)

lemma enrich_flat_no_price:
  "enrich_with_snapshot s2f (flat_candles n c v) (snap_no_price l)
     = Inr (flat_enriched n c v NaN (if l = 0 then JNum 0 else JNum l) (Fin 1000))"
  by (simp add: enrich_with_snapshot_def snapshot_liq_usd_def snapshot_px_def
      snapshot_mcap_def flat_candles_def flat_enriched_def snap_no_price_def pair_get_def
      pair_get_dict_def)

lemma enrich_flat_full:
  "enrich_with_snapshot reads_digit (flat_candles n c v) (snap_full l)
     = Inr (flat_enriched n c v (Fin 1) (if l = 0 then JNum 0 else JNum l) (Fin 1000))"
  by (simp add: enrich_with_snapshot_def snapshot_liq_usd_def snapshot_px_def
      snapshot_mcap_def flat_candles_def flat_enriched_def snap_full_def pair_get_def
      pair_get_dict_def reads_digit_def)

theorem enriched_mcap_roc_never_fires_witness:
  "rule_mcap_roc (flat_enriched 60 1 5000 NaN (JNum 0) (Fin 1000))
     = Inr (False, [(''roc%'', Fin 0)])"
  using enriched_mcap_roc_never_fires [OF enrich_flat_fdv [of reads_nothing 60 1 5000]]
  by (simp add: flat_candles_def flat_enriched_def finite_nonzero_def)

text \<open>
  The claim as written fails on a series of three bars: the snapshot has a market cap of
  1000, the rule measures a change, and the change is NaN, not zero. It fails as well on
  sixty bars when the snapshot gives the market cap as the string \<open>"0"\<close>.
\<close>

theorem mcap_roc_zero_change_counterexample:
  "enrich_with_snapshot reads_nothing (flat_candles 3 1 5000) (snap_fdv (JNum 1000))
     = Inr (flat_enriched 3 1 5000 NaN (JNum 0) (Fin 1000))
   \<and> rule_mcap_roc (flat_enriched 3 1 5000 NaN (JNum 0) (Fin 1000))
     = Inr (False, [(''roc%'', NaN)])
   \<and> enrich_with_snapshot reads_digit (flat_candles 60 1 5000) (snap_fdv (JStr ''0''))
     = Inr (flat_enriched 60 1 5000 NaN (JNum 0) (Fin 0))
   \<and> rule_mcap_roc (flat_enriched 60 1 5000 NaN (JNum 0) (Fin 0))
     = Inr (False, [(''roc%'', NaN)])"
proof -
  have a: "rule_mcap_roc (flat_enriched 3 1 5000 NaN (JNum 0) (Fin 1000))
     = Inr (False, [(''roc%'', NaN)])"
    by (subst rule_mcap_roc_replicate [where n = 3 and m = "Fin 1000"])
       (simp_all add: flat_enriched_def)
  have c: "rule_mcap_roc (flat_enriched 60 1 5000 NaN (JNum 0) (Fin 0))
     = Inr (False, [(''roc%'', NaN)])"
    by (subst rule_mcap_roc_replicate [where n = 60 and m = "Fin 0"])
       (simp_all add: flat_enriched_def finite_nonzero_def)
  show ?thesis using enrich_flat_fdv enrich_flat_fdv_zero a c by simp
qed

section \<open>Guards\<close>

lemma guards_columns:
  assumes "volumeUsd df = Some v" and "v \<noteq> []" and "liquidityUsd df = Some l" and "l \<noteq> []"
  shows "guards df =
     (case scalar_ge (last l) MIN_LIQ_USD of
        Inl e \<Rightarrow> Inl e
      | Inr liq_ok \<Rightarrow>
          Inr (fl_ge (last (rolling 20 win_mean v)) (Fin MIN_ABS_VOLUME_USD) \<and> liq_ok))"
proof -
  have "rolling 20 win_mean v \<noteq> []" using assms(2) by (simp add: rolling_def)
  then show ?thesis using assms by (simp add: guards_def iloc_last_def)
qed

text \<open>
  C7. On an enriched series (the columns \<open>volumeUsd\<close> and \<open>liquidityUsd\<close> are there and
  have a latest bar), the guard rejects the pair when the latest liquidity value is
  MIN_LIQ_USD - 1 = 29999, and with the latest liquidity value equal to
  MIN_LIQ_USD = 30000 it admits the pair exactly when the volume guard passes (the
  20-bar average of volumeUsd at the latest bar is at least MIN_ABS_VOLUME_USD).
\<close>

theorem guards_liquidity_boundary:
  assumes "volumeUsd df = Some v" and "v \<noteq> []" and "liquidityUsd df = Some l" and "l \<noteq> []"
  shows "(last l = JNum (MIN_LIQ_USD - 1) \<longrightarrow> guards df = Inr False) \<and>
         (last l = JNum MIN_LIQ_USD \<longrightarrow>
            guards df = Inr (fl_ge (last (rolling 20 win_mean v)) (Fin MIN_ABS_VOLUME_USD))) \<and>
         MIN_LIQ_USD = 30000"
  by (simp add: guards_columns [OF assms] MIN_LIQ_USD_def)

lemma guards_flat_enriched:
  "20 \<le> n \<Longrightarrow> v * px \<ge> 3000 \<Longrightarrow>
   guards (flat_enriched n c v (Fin px) (JNum l) m) = Inr (30000 \<le> l)"
  by (simp add: guards_def flat_enriched_def last_rolling_mean_replicate iloc_last_replicate
      MIN_ABS_VOLUME_USD_def MIN_LIQ_USD_def)

theorem guards_liquidity_boundary_witness:
  "enrich_with_snapshot reads_digit (flat_candles 60 1 5000) (snap_full 29999)
     = Inr (flat_enriched 60 1 5000 (Fin 1) (JNum 29999) (Fin 1000))
   \<and> guards (flat_enriched 60 1 5000 (Fin 1) (JNum 29999) (Fin 1000)) = Inr False
   \<and> enrich_with_snapshot reads_digit (flat_candles 60 1 5000) (snap_full 30000)
     = Inr (flat_enriched 60 1 5000 (Fin 1) (JNum 30000) (Fin 1000))
   \<and> guards (flat_enriched 60 1 5000 (Fin 1) (JNum 30000) (Fin 1000)) = Inr True"
proof -
  have vol: "iloc_last (rolling 20 win_mean (replicate 60 (Fin 5000))) = Inr (Fin 5000)"
    by (rule last_rolling_mean_replicate) simp_all
  then have avg: "last (rolling 20 win_mean (replicate 60 (Fin 5000))) = Fin 5000"
    by (simp add: iloc_last_def split: if_splits)
  have lo: "guards (flat_enriched 60 1 5000 (Fin 1) (JNum 29999) (Fin 1000)) = Inr False"
    using guards_liquidity_boundary
      [of "flat_enriched 60 1 5000 (Fin 1) (JNum 29999) (Fin 1000)"
          "replicate 60 (Fin 5000)" "replicate 60 (JNum 29999)"]
    by (simp add: flat_enriched_def MIN_LIQ_USD_def)
  have eq: "guards (flat_enriched 60 1 5000 (Fin 1) (JNum 30000) (Fin 1000)) = Inr True"
    using guards_liquidity_boundary
      [of "flat_enriched 60 1 5000 (Fin 1) (JNum 30000) (Fin 1000)"
          "replicate 60 (Fin 5000)" "replicate 60 (JNum 30000)"]
    by (simp add: flat_enriched_def MIN_LIQ_USD_def MIN_ABS_VOLUME_USD_def avg)
  show ?thesis
    using lo eq enrich_flat_full [of 60 1 5000 29999] enrich_flat_full [of 60 1 5000 30000]
    by simp
qed

lemma guards_rejects_without_price:
  assumes "enrich_with_snapshot s2f df pair = Inr df'"
    and "snapshot_px s2f pair = NaN"
  shows "guards df' = Inr False \<or> (\<exists>e. guards df' = Inl e)"
proof -
  from enrich_columns [OF assms(1)] obtain l v where
    v: "volume df = Some v" and
    df': "df' = df\<lparr>liquidityUsd := Some (replicate (nrows df) l),
                  volumeUsd := Some (map (\<lambda>x. fl_mul x (snapshot_px s2f pair)) v),
                  mcap := Some (replicate (nrows df) (snapshot_mcap s2f pair))\<rparr>"
    by blast
  have vusd: "volumeUsd df' = Some (replicate (length v) NaN)"
    by (simp add: df' assms(2) map_replicate_const)
  show ?thesis
  proof (cases "v = []")
    case True
    then show ?thesis by (simp add: guards_def vusd rolling_def iloc_last_def)
  next
    case False
    then have "iloc_last (rolling 20 win_mean (replicate (length v) NaN)) = Inr NaN"
      by (intro last_rolling_nan_replicate) simp_all
    then show ?thesis
      by (auto simp: guards_def vusd split: option.splits sum.splits)
  qed
qed

text \<open>
  C5 (the code at the failing input). Sixty bars of raw volume 5000 and a snapshot with
  liquidity 50000 and no price: enrichment creates the column \<open>volumeUsd\<close> all the same
  (every cell NaN), so the guard reads it, finds a NaN average and rejects the pair.
  Had the column been left out, the guard's own fallback to raw volume would admit the
  pair.
\<close>

theorem guards_no_fallback_after_enrichment:
  "enrich_with_snapshot reads_nothing (flat_candles 60 1 5000) (snap_no_price 50000)
     = Inr (flat_enriched 60 1 5000 NaN (JNum 50000) (Fin 1000))
   \<and> volumeUsd (flat_enriched 60 1 5000 NaN (JNum 50000) (Fin 1000)) = Some (replicate 60 NaN)
   \<and> guards (flat_enriched 60 1 5000 NaN (JNum 50000) (Fin 1000)) = Inr False
   \<and> guards ((flat_enriched 60 1 5000 NaN (JNum 50000) (Fin 1000))\<lparr>volumeUsd := None\<rparr>)
     = Inr True"
proof -
  have nan: "iloc_last (rolling 20 win_mean (replicate 60 NaN)) = Inr NaN"
    by (rule last_rolling_nan_replicate) simp_all
  have raw: "iloc_last (rolling 20 win_mean (replicate 60 (Fin 5000))) = Inr (Fin 5000)"
    by (rule last_rolling_mean_replicate) simp_all
  have a: "guards (flat_enriched 60 1 5000 NaN (JNum 50000) (Fin 1000)) = Inr False"
    by (simp add: guards_def flat_enriched_def nan iloc_last_replicate)
  have b: "guards ((flat_enriched 60 1 5000 NaN (JNum 50000) (Fin 1000))\<lparr>volumeUsd := None\<rparr>)
     = Inr True"
    by (simp add: guards_def flat_enriched_def raw MIN_ABS_VOLUME_USD_def MIN_LIQ_USD_def
        iloc_last_replicate)
  show ?thesis using a b enrich_flat_no_price [of reads_nothing 60 1 5000 50000]
    by (simp add: flat_enriched_def)
qed

section \<open>The EMA-cross rule\<close>

lemma length_rolling [simp]: "length (rolling n f xs) = length xs"
  by (simp add: rolling_def)

lemma rolling_nth:
  "i < length xs \<Longrightarrow>
   rolling n f xs ! i =
     (if i + 1 < n then NaN
      else (let w = take n (drop (i + 1 - n) xs) in if list_ex isnan w then NaN else f w))"
  by (simp add: rolling_def)

lemma length_diff [simp]: "length (diff xs) = length xs"
  by (simp add: diff_def)

lemma diff_nth:
  "i < length xs \<Longrightarrow> diff xs ! i = (if i = 0 then NaN else fl_sub (xs ! i) (xs ! (i - 1)))"
  by (simp add: diff_def)

lemma length_ewm_go [simp]: "length (ewm_go \<alpha> w ow xs) = length xs"
  by (induction xs arbitrary: w ow) (simp_all add: Let_def)

lemma length_ema [simp]: "length (ema xs n) = length xs"
  by (simp add: ema_def split: list.splits)

lemma ema_Nil_iff [simp]: "(ema c n = []) = (c = [])"
  by (simp add: ema_def split: list.splits)

lemma ema_cross_returns: "2 \<le> length c \<Longrightarrow> \<exists>b. ema_cross c = Inr b"
proof -
  assume "2 \<le> length c"
  then have "c \<noteq> []" by auto
  with \<open>2 \<le> length c\<close> show ?thesis
    by (auto simp: ema_cross_def iloc_prev_def iloc_last_def Let_def)
qed

lemma ema_cross_raises: "length c < 2 \<Longrightarrow> ema_cross c = Inl IndexError"
  by (auto simp: ema_cross_def iloc_prev_def iloc_last_def Let_def)

lemma ema_vavg_nonzero: "ema_vavg v = Inr a \<Longrightarrow> a \<noteq> Fin 0"
  by (auto simp: ema_vavg_def split: sum.splits if_splits)

lemma fl_div_one [simp]: "fl_div x (Fin 1) = x"
  by (cases x) (simp_all add: signed_inf_def)

lemma fl_mul_one [simp]: "fl_mul (Fin a) (Fin 1) = Fin a"
  by simp

text \<open>
  C10. In \<open>rule_ema_cross\<close>, when the 20-bar average of the zero-filled USD volume at
  the latest bar is exactly zero, \<open>vavg\<close> is 1: the rule's volume confirmation is
  "latest volume value > 1.5", and the reported \<open>vol_mult\<close> is the latest value divided
  by 1. Whatever the series, \<open>vavg\<close> is never zero, so the division never divides by zero.
\<close>

theorem ema_cross_zero_average:
  assumes "close df = Some c" and "volumeUsd df = Some vu"
    and "iloc_last (rolling 20 win_mean (fillna 0 vu)) = Inr (Fin 0)"
  shows "ema_vavg (fillna 0 vu) = Inr (Fin 1) \<and>
         rule_ema_cross df =
           (case ema_cross c of
              Inl e \<Rightarrow> Inl e
            | Inr cross \<Rightarrow>
                Inr (cross \<and> fl_gt (last (fillna 0 vu)) (Fin (3 / 2)),
                     [(''vol_mult'', fl_div (last (fillna 0 vu)) (Fin 1))])) \<and>
         (\<forall>w a. ema_vavg w = Inr a \<longrightarrow> a \<noteq> Fin 0)"
proof -
  have va: "ema_vavg (fillna 0 vu) = Inr (Fin 1)"
    using assms(3) by (simp add: ema_vavg_def)
  have ne: "fillna 0 vu \<noteq> []"
    using assms(3) by (auto simp: rolling_def iloc_last_def)
  then have la: "iloc_last (fillna 0 vu) = Inr (last (fillna 0 vu))"
    by (simp add: iloc_last_def)
  have "rule_ema_cross df =
           (case ema_cross c of
              Inl e \<Rightarrow> Inl e
            | Inr cross \<Rightarrow>
                Inr (cross \<and> fl_gt (last (fillna 0 vu)) (Fin (3 / 2)),
                     [(''vol_mult'', fl_div (last (fillna 0 vu)) (Fin 1))]))"
    using assms(1,2) va la
    by (simp add: rule_ema_cross_def col_def Let_def VOL_MULT_CONFIRM_def split: sum.splits)
  with va ema_vavg_nonzero show ?thesis by blast
qed

theorem ema_cross_zero_average_witness:
  "rule_ema_cross (flat_enriched 60 1 5000 NaN (JNum 50000) (Fin 1000))
     = Inr (False, [(''vol_mult'', Fin 0)])"
proof -
  have z: "fillna 0 (replicate 60 NaN) = replicate 60 (Fin 0)"
    by (simp add: fillna_def)
  have avg: "iloc_last (rolling 20 win_mean (fillna 0 (replicate 60 NaN))) = Inr (Fin 0)"
    unfolding z by (rule last_rolling_mean_replicate) simp_all
  obtain b where b: "ema_cross (replicate 60 (Fin 1)) = Inr b"
    using ema_cross_returns [of "replicate 60 (Fin 1)"] by auto
  show ?thesis
    using ema_cross_zero_average
      [of "flat_enriched 60 1 5000 NaN (JNum 50000) (Fin 1000)" "replicate 60 (Fin 1)"
          "replicate 60 NaN", OF _ _ avg]
    by (simp add: flat_enriched_def b z)
qed

section \<open>The relative strength index\<close>

lemma nonneg_fin_Fin [simp]: "nonneg_fin (Fin r) = (0 \<le> r)"
  by (simp add: nonneg_fin_def)

lemma nonneg_finE: "nonneg_fin x \<Longrightarrow> (\<And>r. x = Fin r \<Longrightarrow> 0 \<le> r \<Longrightarrow> P) \<Longrightarrow> P"
  by (cases x) (simp_all add: nonneg_fin_def)

lemma foldl_fl_add_nonneg:
  "list_all nonneg_fin w \<Longrightarrow> 0 \<le> a \<Longrightarrow> \<exists>s. foldl fl_add (Fin a) w = Fin s \<and> 0 \<le> s"
proof (induction w arbitrary: a)
  case Nil
  then show ?case by simp
next
  case (Cons x w)
  from Cons.prems(1) obtain r where x: "x = Fin r" and r: "0 \<le> r"
    by (auto elim: nonneg_finE)
  from Cons.prems(1) have "list_all nonneg_fin w" by simp
  from Cons.IH [OF this, of "a + r"] Cons.prems(2) r show ?case by (simp add: x)
qed

lemma win_mean_nonneg:
  assumes "list_all nonneg_fin w" and "w \<noteq> []"
  shows "\<exists>m. win_mean w = Fin m \<and> 0 \<le> m"
proof -
  from foldl_fl_add_nonneg [OF assms(1), of 0] obtain s where
    s: "fl_sum w = Fin s" "0 \<le> s" by (auto simp: fl_sum_def)
  from assms(2) have "real (length w) \<noteq> 0" by simp
  then show ?thesis using s by (simp add: win_mean_def)
qed

lemma nonneg_fin_not_isnan: "nonneg_fin x \<Longrightarrow> \<not> isnan x"
  by (cases x) (simp_all add: nonneg_fin_def)

lemma nonneg_fin_not_nan: "list_all nonneg_fin w \<Longrightarrow> \<not> list_ex isnan w"
  by (auto simp: list_all_iff list_ex_iff dest: nonneg_fin_not_isnan)

lemma clip_lower_Fin [simp]: "clip_lower 0 (Fin d) = Fin (max 0 d)"
  by (simp add: clip_lower_def max_def)

lemma clip_lower_NaN [simp]: "clip_lower 0 NaN = NaN"
  by (simp add: clip_lower_def)

text \<open>The window of a rolling statistic over the clipped differences of a finite series.\<close>

lemma clipped_diff_window:
  assumes "i < length rs" and "n \<le> i"
    and g: "\<And>d. \<exists>r. g (Fin d) = Fin r \<and> 0 \<le> r"
  shows "list_all nonneg_fin (take n (drop (i + 1 - n) (map g (diff (map Fin rs)))))"
proof -
  have "nonneg_fin (take n (drop (i + 1 - n) (map g (diff (map Fin rs)))) ! j)"
    if "j < length (take n (drop (i + 1 - n) (map g (diff (map Fin rs)))))" for j
  proof -
    from that have j: "j < n" "i + 1 - n + j < length rs" by auto
    from assms(2) have pos: "i + 1 - n + j \<noteq> 0" by simp
    from g [of "rs ! (i + 1 - n + j) - rs ! (i + 1 - n + j - 1)"] j pos show ?thesis
      by (auto simp: diff_nth)
  qed
  then show ?thesis by (simp add: list_all_length)
qed

lemma clipped_diff_rolling_early:
  assumes "i < length rs" and "i < n" and "g NaN = NaN"
  shows "rolling n win_mean (map g (diff (map Fin rs))) ! i = NaN"
proof (cases "i + 1 < n")
  case True
  then show ?thesis using assms(1) by (simp add: rolling_nth)
next
  case False
  with assms(2) have n: "n = i + 1" by simp
  have "0 < length rs" using assms(1) by (cases rs) simp_all
  then have "take n (drop (i + 1 - n) (map g (diff (map Fin rs)))) ! 0 = NaN"
    using assms(3) n by (simp add: diff_nth)
  moreover have "0 < length (take n (drop (i + 1 - n) (map g (diff (map Fin rs)))))"
    using assms(1) n by simp
  ultimately have "list_ex isnan (take n (drop (i + 1 - n) (map g (diff (map Fin rs)))))"
    unfolding list_ex_length by (metis isnan.simps(1))
  then show ?thesis using assms(1) by (simp add: rolling_nth)
qed

lemma clipped_diff_rolling_late:
  assumes "i < length rs" and "n \<le> i" and "0 < n"
    and g: "\<And>d. \<exists>r. g (Fin d) = Fin r \<and> 0 \<le> r"
  shows "\<exists>m. rolling n win_mean (map g (diff (map Fin rs))) ! i = Fin m \<and> 0 \<le> m"
proof -
  let ?w = "take n (drop (i + 1 - n) (map g (diff (map Fin rs))))"
  have all: "list_all nonneg_fin ?w"
    using assms(1,2) g by (rule clipped_diff_window)
  have ne: "?w \<noteq> []" using assms(1,2,3) by auto
  from win_mean_nonneg [OF all ne] nonneg_fin_not_nan [OF all] assms(1,2) show ?thesis
    by (simp add: rolling_nth)
qed

lemma gain_clip: "\<exists>r. clip_lower 0 (Fin d) = Fin r \<and> 0 \<le> r"
  by simp

lemma loss_clip: "\<exists>r. (clip_lower 0 \<circ> fl_neg) (Fin d) = Fin r \<and> 0 \<le> r"
  by simp

lemma length_rsi_avg [simp]:
  "length (rsi_avg_gain xs n) = length xs" "length (rsi_avg_loss xs n) = length xs"
  by (simp_all add: rsi_avg_gain_def rsi_avg_loss_def replace_val_def)

lemma length_rsi [simp]: "length (rsi_rs xs n) = length xs" "length (rsi xs n) = length xs"
  by (simp_all add: rsi_def rsi_rs_def)

lemma rsi_avg_gain_late:
  "i < length rs \<Longrightarrow> n \<le> i \<Longrightarrow> 0 < n \<Longrightarrow>
   \<exists>g. rsi_avg_gain (map Fin rs) n ! i = Fin g \<and> 0 \<le> g"
  unfolding rsi_avg_gain_def
  by (rule clipped_diff_rolling_late [where g = "clip_lower 0"]) (simp_all add: gain_clip)

lemma rsi_avg_loss_late:
  assumes "i < length rs" and "n \<le> i" and "0 < n"
  shows "\<exists>l. rsi_avg_loss (map Fin rs) n ! i = Fin l \<and> 0 < l"
proof -
  from clipped_diff_rolling_late [where g = "clip_lower 0 \<circ> fl_neg", OF assms] loss_clip
  obtain m where
    m: "rolling n win_mean (map (clip_lower 0 \<circ> fl_neg) (diff (map Fin rs))) ! i = Fin m" "0 \<le> m"
    by blast
  show ?thesis
  proof (cases "m = 0")
    case True
    then have "rsi_avg_loss (map Fin rs) n ! i = Fin (1 / 10 ^ 9)"
      using m assms(1) by (simp add: rsi_avg_loss_def replace_val_def)
    moreover have "(0::real) < 1 / 10 ^ 9" by simp
    ultimately show ?thesis by blast
  next
    case False
    then have "rsi_avg_loss (map Fin rs) n ! i = Fin m"
      using m assms(1) by (simp add: rsi_avg_loss_def replace_val_def)
    with False m(2) show ?thesis by simp
  qed
qed

lemma rsi_avg_loss_never_zero:
  "i < length xs \<Longrightarrow> rsi_avg_loss xs n ! i \<noteq> Fin 0"
  by (simp add: rsi_avg_loss_def replace_val_def)

lemma rsi_early:
  assumes "i < length rs" and "i < n"
  shows "rsi (map Fin rs) n ! i = NaN"
proof -
  have "rsi_avg_gain (map Fin rs) n ! i = NaN"
    unfolding rsi_avg_gain_def
    using assms by (rule clipped_diff_rolling_early) simp
  then show ?thesis using assms(1) by (simp add: rsi_def rsi_rs_def)
qed

lemma rsi_value_bounds:
  assumes "0 \<le> g" and "0 < l"
  shows "0 \<le> 100 - 100 / (1 + g / l)" and "100 - 100 / (1 + g / l) \<le> (100::real)"
proof -
  have q: "0 \<le> g / l" using assms by simp
  then have "1 \<le> 1 + g / l" by simp
  then have "100 / (1 + g / l) \<le> 100 / 1"
    by (intro divide_left_mono) simp_all
  then show "0 \<le> 100 - 100 / (1 + g / l)" by simp
  have "0 \<le> 100 / (1 + g / l)" using q by simp
  then show "100 - 100 / (1 + g / l) \<le> (100::real)" by simp
qed

lemma rsi_late:
  assumes "i < length rs" and "n \<le> i" and "0 < n"
  shows "\<exists>g l. rsi_avg_gain (map Fin rs) n ! i = Fin g \<and> 0 \<le> g
           \<and> rsi_avg_loss (map Fin rs) n ! i = Fin l \<and> 0 < l
           \<and> rsi_rs (map Fin rs) n ! i = Fin (g / l)
           \<and> rsi (map Fin rs) n ! i = Fin (100 - 100 / (1 + g / l))
           \<and> 0 \<le> 100 - 100 / (1 + g / l) \<and> 100 - 100 / (1 + g / l) \<le> 100"
proof -
  from rsi_avg_gain_late [OF assms] obtain g where
    g: "rsi_avg_gain (map Fin rs) n ! i = Fin g" "0 \<le> g" by blast
  from rsi_avg_loss_late [OF assms] obtain l where
    l: "rsi_avg_loss (map Fin rs) n ! i = Fin l" "0 < l" by blast
  have "1 + g / l \<noteq> 0" using g(2) l(2) by (smt (verit) divide_nonneg_pos)
  have rs: "rsi_rs (map Fin rs) n ! i = Fin (g / l)"
    using assms(1) g l by (simp add: rsi_rs_def)
  have "1 + g / l \<noteq> 0" using g(2) l(2) by (smt (verit) divide_nonneg_pos)
  then have "rsi (map Fin rs) n ! i = Fin (100 - 100 / (1 + g / l))"
    using assms(1) rs by (simp add: rsi_def rsi_rs_def)
  with g l rs rsi_value_bounds [OF g(2) l(2)] show ?thesis by blast
qed


lemma rsi_rs_early:
  assumes "i < length rs" and "i < n"
  shows "rsi_rs (map Fin rs) n ! i = NaN"
proof -
  have "rsi_avg_gain (map Fin rs) n ! i = NaN"
    unfolding rsi_avg_gain_def
    using assms by (rule clipped_diff_rolling_early) simp
  then show ?thesis using assms(1) by (simp add: rsi_rs_def)
qed

text \<open>
  C9. For a series of finite values and a window \<open>n > 0\<close> (14 by default), \<open>rsi\<close> has the
  length of its input, is NaN at the first \<open>n\<close> positions and, at every position from
  \<open>n\<close> on (so in a series of at least \<open>n + 1\<close> values), is a finite value between 0 and
  100. Neither division divides by zero: \<open>avg_loss\<close> after the replacement of 0 by 1e-9 is
  never zero, and \<open>1 + rs\<close> is never zero.
\<close>

theorem rsi_bounded:
  assumes "0 < n"
  shows "length (rsi (map Fin rs) n) = length rs \<and>
         (\<forall>i<length rs.
            rsi_avg_loss (map Fin rs) n ! i \<noteq> Fin 0 \<and>
            fl_add (Fin 1) (rsi_rs (map Fin rs) n ! i) \<noteq> Fin 0 \<and>
            (i < n \<longrightarrow> rsi (map Fin rs) n ! i = NaN) \<and>
            (n \<le> i \<longrightarrow> (\<exists>r. rsi (map Fin rs) n ! i = Fin r \<and> 0 \<le> r \<and> r \<le> 100)))"
proof -
  have "rsi_avg_loss (map Fin rs) n ! i \<noteq> Fin 0 \<and>
        fl_add (Fin 1) (rsi_rs (map Fin rs) n ! i) \<noteq> Fin 0 \<and>
        (i < n \<longrightarrow> rsi (map Fin rs) n ! i = NaN) \<and>
        (n \<le> i \<longrightarrow> (\<exists>r. rsi (map Fin rs) n ! i = Fin r \<and> 0 \<le> r \<and> r \<le> 100))"
    if i: "i < length rs" for i
  proof (cases "i < n")
    case True
    with i rsi_early [of i rs n] rsi_rs_early [of i rs n] rsi_avg_loss_never_zero [of i "map Fin rs" n]
    show ?thesis by simp
  next
    case False
    then have ni: "n \<le> i" by simp
    from rsi_late [OF i ni assms] obtain g l where
      gl: "0 \<le> g" "0 < l" "rsi_rs (map Fin rs) n ! i = Fin (g / l)"
          "rsi (map Fin rs) n ! i = Fin (100 - 100 / (1 + g / l))"
          "0 \<le> 100 - 100 / (1 + g / l)" "100 - 100 / (1 + g / l) \<le> 100"
      by blast
    have "1 + g / l \<noteq> 0" using gl(1,2) by (smt (verit) divide_nonneg_pos)
    with gl False i rsi_avg_loss_never_zero [of i "map Fin rs" n] show ?thesis by simp
  qed
  then show ?thesis by simp
qed

lemma upt_15: "[0..<15] = [0, 1, 2, 3, 4, 5, 6, 7, 8, 9, 10, 11, 12, 13, 14]"
  by (simp add: upt_rec)

lemma rsi_rising15: "rsi (map Fin rising15) 14 ! 14 = Fin (100 - 100 / (1 + 10 ^ 9))"
  by (simp add: rsi_def rsi_rs_def rsi_avg_gain_def rsi_avg_loss_def rolling_nth diff_def
      rising15_def replace_val_def win_mean_def fl_sum_def clip_lower_def upt_15 Let_def)

theorem rsi_bounded_witness:
  "length (rsi (map Fin rising15) 14) = 15 \<and> rsi (map Fin rising15) 14 ! 13 = NaN \<and>
   rsi (map Fin rising15) 14 ! 14 = Fin (100 - 100 / (1 + 10 ^ 9)) \<and>
   (0::real) \<le> 100 - 100 / (1 + 10 ^ 9) \<and> (100::real) - 100 / (1 + 10 ^ 9) \<le> 100 \<and>
   rsi_avg_loss (map Fin rising15) 14 ! 14 \<noteq> Fin 0"
proof -
  have len: "length rising15 = 15" by (simp add: rising15_def)
  from rsi_bounded [of 14 rising15] have
    "\<forall>i<15. rsi_avg_loss (map Fin rising15) 14 ! i \<noteq> Fin 0 \<and>
            fl_add (Fin 1) (rsi_rs (map Fin rising15) 14 ! i) \<noteq> Fin 0 \<and>
            (i < 14 \<longrightarrow> rsi (map Fin rising15) 14 ! i = NaN) \<and>
            (14 \<le> i \<longrightarrow> (\<exists>r. rsi (map Fin rising15) 14 ! i = Fin r \<and> 0 \<le> r \<and> r \<le> 100))"
    by (simp add: len)
  then show ?thesis using rsi_rising15 by (simp add: len)
qed

section \<open>Bollinger bands\<close>

lemma foldl_fl_add_Fin: "foldl fl_add (Fin a) (map Fin w) = Fin (a + sum_list w)"
  by (induction w arbitrary: a) (simp_all add: algebra_simps)

lemma fl_sum_Fin: "fl_sum (map Fin w) = Fin (sum_list w)"
  by (simp add: fl_sum_def foldl_fl_add_Fin)

lemma win_mean_Fin: "w \<noteq> [] \<Longrightarrow> win_mean (map Fin w) = Fin (real_mean w)"
  by (simp add: win_mean_def fl_sum_Fin real_mean_def)

lemma sum_sq_dev_nonneg: "0 \<le> sum_sq_dev w"
  unfolding sum_sq_dev_def by (rule sum_list_nonneg) auto

lemma win_std_Fin:
  assumes "2 \<le> length w"
  shows "win_std (map Fin w) = Fin (sample_std w)"
proof -
  have ne: "w \<noteq> []" using assms by auto
  have dev: "map (\<lambda>x. fl_mul (fl_sub x (Fin (real_mean w))) (fl_sub x (Fin (real_mean w)))) (map Fin w)
      = map Fin (map (\<lambda>x. (x - real_mean w) * (x - real_mean w)) w)"
    by simp
  have d: "real (length w) - 1 \<noteq> 0" using assms by simp
  have nn: "\<not> sum_sq_dev w / (real (length w) - 1) < 0"
    using sum_sq_dev_nonneg [of w] assms by (simp add: not_less)
  show ?thesis
    unfolding win_std_def Let_def win_mean_Fin [OF ne] dev fl_sum_Fin
    using d nn by (simp add: sample_std_def sum_sq_dev_def)
qed

lemma not_isnan_map_Fin [simp]: "\<not> list_ex isnan (map Fin w)"
  by (simp add: list_ex_iff)

lemma bollinger_lengths:
  "bollinger xs n k = (ma, up, dn) \<Longrightarrow>
   length ma = length xs \<and> length up = length xs \<and> length dn = length xs"
  by (auto simp: bollinger_def Let_def)

lemma bollinger_nth:
  assumes "bollinger xs n k = (ma, up, dn)" and "i < length xs"
  shows "ma ! i = rolling n win_mean xs ! i"
    and "up ! i = fl_add (rolling n win_mean xs ! i) (fl_mul (Fin k) (rolling n win_std xs ! i))"
    and "dn ! i = fl_sub (rolling n win_mean xs ! i) (fl_mul (Fin k) (rolling n win_std xs ! i))"
  using assms by (auto simp: bollinger_def Let_def)

text \<open>
  C4 (as amended). \<open>bollinger\<close> with window 20 and \<open>k = 2\<close> returns three series of the
  input's length. All three are NaN at the first 19 positions and wherever the window of
  20 values holds a NaN. Where the window holds finite values \<open>w\<close>, the middle band is
  their mean, the upper band is the mean plus twice their sample standard deviation (the
  divisor is 19, one less than the window: pandas' \<open>ddof = 1\<close>) and the lower band is
  the mean less twice it.
\<close>

theorem bollinger_bands:
  assumes "bollinger xs 20 2 = (ma, up, dn)"
  shows "length ma = length xs \<and> length up = length xs \<and> length dn = length xs \<and>
     (\<forall>i<length xs.
        (i < 19 \<longrightarrow> ma ! i = NaN \<and> up ! i = NaN \<and> dn ! i = NaN) \<and>
        (19 \<le> i \<longrightarrow>
           (list_ex isnan (take 20 (drop (i - 19) xs)) \<longrightarrow>
              ma ! i = NaN \<and> up ! i = NaN \<and> dn ! i = NaN) \<and>
           (\<forall>w. take 20 (drop (i - 19) xs) = map Fin w \<longrightarrow>
              ma ! i = Fin (real_mean w) \<and>
              up ! i = Fin (real_mean w + 2 * sample_std w) \<and>
              dn ! i = Fin (real_mean w - 2 * sample_std w))))"
proof -
  have "(i < 19 \<longrightarrow> ma ! i = NaN \<and> up ! i = NaN \<and> dn ! i = NaN) \<and>
        (19 \<le> i \<longrightarrow>
           (list_ex isnan (take 20 (drop (i - 19) xs)) \<longrightarrow>
              ma ! i = NaN \<and> up ! i = NaN \<and> dn ! i = NaN) \<and>
           (\<forall>w. take 20 (drop (i - 19) xs) = map Fin w \<longrightarrow>
              ma ! i = Fin (real_mean w) \<and>
              up ! i = Fin (real_mean w + 2 * sample_std w) \<and>
              dn ! i = Fin (real_mean w - 2 * sample_std w)))"
    if i: "i < length xs" for i
  proof (cases "i < 19")
    case True
    then show ?thesis using bollinger_nth [OF assms i] i by (simp add: rolling_nth)
  next
    case False
    then have idx: "i + 1 - 20 = i - 19" and ge: "\<not> i + 1 < 20" by simp_all
    have nan: "ma ! i = NaN \<and> up ! i = NaN \<and> dn ! i = NaN"
      if "list_ex isnan (take 20 (drop (i - 19) xs))"
      using bollinger_nth [OF assms i] i that ge by (simp add: rolling_nth idx)
    have fin: "ma ! i = Fin (real_mean w) \<and> up ! i = Fin (real_mean w + 2 * sample_std w) \<and>
               dn ! i = Fin (real_mean w - 2 * sample_std w)"
      if w: "take 20 (drop (i - 19) xs) = map Fin w" for w
    proof -
      have "length (take 20 (drop (i - 19) xs)) = 20" using i False by simp
      then have len: "length w = 20" using w by (metis length_map)
      then have ne: "w \<noteq> []" and two: "2 \<le> length w" by auto
      show ?thesis
        using bollinger_nth [OF assms i] i ge
        by (simp add: rolling_nth idx w win_mean_Fin [OF ne] win_std_Fin [OF two])
    qed
    from nan fin False show ?thesis by blast
  qed
  with bollinger_lengths [OF assms] show ?thesis by blast
qed

lemma spread20_stats:
  "length spread20 = 20" "real_mean spread20 = 10" "sum_sq_dev spread20 = 76"
  by (simp_all add: spread20_def real_mean_def sum_sq_dev_def)

lemma spread20_std: "sample_std spread20 = 2" "population_std spread20 \<noteq> 2"
proof -
  show "sample_std spread20 = 2"
    by (simp add: sample_std_def spread20_stats)
  have "sqrt (19 / 5) \<noteq> 2"
  proof
    assume "sqrt (19 / 5) = 2"
    then have "(sqrt (19 / 5))\<^sup>2 = 2\<^sup>2" by simp
    then show False by simp
  qed
  then show "population_std spread20 \<noteq> 2"
    by (simp add: population_std_def spread20_stats)
qed

lemma rolling_exact:
  assumes "length xs = n" and "0 < n"
  shows "rolling n f xs = replicate (n - 1) NaN @ [if list_ex isnan xs then NaN else f xs]"
proof (rule nth_equalityI)
  show "length (rolling n f xs) = length (replicate (n - 1) NaN @ [if list_ex isnan xs then NaN else f xs])"
    using assms by simp
next
  fix i assume "i < length (rolling n f xs)"
  then have i: "i < n" using assms by simp
  show "rolling n f xs ! i = (replicate (n - 1) NaN @ [if list_ex isnan xs then NaN else f xs]) ! i"
  proof (cases "i + 1 < n")
    case True
    then have "i < n - 1" by simp
    then show ?thesis using True assms i by (simp add: rolling_nth nth_append)
  next
    case False
    with i have "i = n - 1" by simp
    then show ?thesis using assms i by (simp add: rolling_nth nth_append)
  qed
qed

lemma bollinger_spread20:
  "bollinger (map Fin spread20) 20 2 =
     (replicate 19 NaN @ [Fin 10], replicate 19 NaN @ [Fin 14], replicate 19 NaN @ [Fin 6])"
proof -
  have len: "length (map Fin spread20) = 20" by (simp add: spread20_stats)
  have ne: "spread20 \<noteq> []" and two: "2 \<le> length spread20" by (simp_all add: spread20_def)
  show ?thesis
    by (simp add: bollinger_def rolling_exact [OF len] win_mean_Fin [OF ne] win_std_Fin [OF two]
        spread20_stats spread20_std)
qed

theorem bollinger_bands_witness:
  "bollinger (map Fin spread20) 20 2 =
     (replicate 19 NaN @ [Fin 10], replicate 19 NaN @ [Fin 14], replicate 19 NaN @ [Fin 6])
   \<and> real_mean spread20 = 10 \<and> sample_std spread20 = 2
   \<and> (replicate 19 NaN @ [Fin 14]) ! 19 = Fin (real_mean spread20 + 2 * sample_std spread20)
   \<and> (replicate 19 NaN @ [Fin 6]) ! 19 = Fin (real_mean spread20 - 2 * sample_std spread20)"
proof -
  have w: "take 20 (drop (19 - 19) (map Fin spread20)) = map Fin spread20"
    by (simp add: spread20_stats)
  from bollinger_bands [OF bollinger_spread20] w
  have "(replicate 19 NaN @ [Fin 14]) ! 19 = Fin (real_mean spread20 + 2 * sample_std spread20)
      \<and> (replicate 19 NaN @ [Fin 6]) ! 19 = Fin (real_mean spread20 - 2 * sample_std spread20)"
    by (simp add: spread20_stats)
  then show ?thesis using bollinger_spread20 spread20_stats spread20_std by simp
qed

text \<open>
  The claim as written names the population standard deviation. On the twenty closes of
  \<open>spread20\<close> the upper band at the last bar is 14 (the mean 10 plus twice the sample
  deviation 2); with the population deviation it would be \<open>10 + 2 * sqrt (19 / 5)\<close>.
\<close>

theorem bollinger_population_counterexample:
  "fst (snd (bollinger (map Fin spread20) 20 2)) ! 19 = Fin 14 \<and>
   Fin (real_mean spread20 + 2 * population_std spread20) \<noteq> Fin 14"
  using spread20_std by (simp add: bollinger_spread20 nth_append spread20_stats)

section \<open>The rule loop\<close>

lemma run_rules_eq:
  "run_rules fs df hits = hits @ map fst (filter (\<lambda>nf. rule_passes (snd nf) df) fs)"
  by (induction fs arbitrary: hits)
     (auto simp: rule_passes_def split: sum.splits prod.splits)

lemma length_rolling_count [simp]: "length (rolling_count n xs) = length xs"
  by (simp add: rolling_count_def)

lemma rsi_Nil [simp]: "rsi [] n = []"
  using length_rsi(2) [of "[]" n] by (simp del: length_rsi)

lemma rules_need_close:
  assumes "close df = None \<or> close df = Some []"
  shows "\<not> rule_passes rule_ema_cross df" and "\<not> rule_passes rule_boll_breakout df"
    and "\<not> rule_passes rule_rsi_reclaim df" and "\<not> rule_passes rule_obv_leads df"
proof -
  show "\<not> rule_passes rule_ema_cross df"
    using assms
    by (auto simp: rule_passes_def rule_ema_cross_def col_def ema_cross_def ema_def
        iloc_prev_def split: sum.splits option.splits)
  show "\<not> rule_passes rule_boll_breakout df"
    using assms
    by (auto simp: rule_passes_def rule_boll_breakout_def col_def boll_squeeze_def
        boll_pct20_def boll_bw_def bollinger_def rolling_def rolling_count_def iloc_last_def
        split: sum.splits option.splits)
  show "\<not> rule_passes rule_rsi_reclaim df"
    using assms
    by (auto simp: rule_passes_def rule_rsi_reclaim_def rule_rsi_reclaim_level_def col_def
        iloc_last_def split: sum.splits option.splits)
  show "\<not> rule_passes rule_obv_leads df"
    using assms
    by (auto simp: rule_passes_def rule_obv_leads_def col_def iloc_last_def
        split: sum.splits option.splits)
qed

lemma mcap_rule_never_passes:
  assumes "mcap df = Some (replicate n m)"
  shows "\<not> rule_passes rule_mcap_roc df"
  by (simp add: rule_passes_def rule_mcap_roc_replicate [OF assms])

lemma hits_rules:
  "run_rules rules df [] = map fst (filter (\<lambda>nf. rule_passes (snd nf) df) rules)"
  by (simp add: run_rules_eq)




text \<open>
  C8. When one of the rules raises on a series, the loop goes on as if that rule had
  returned passed = false with no metrics: the hits are those of the rules before it and
  of the rules after it, each of them evaluated, in their order, and the aggregation of
  the pair is the same. The loop returns its list of hits whatever the rules raise, so a
  rule that raises ends neither the scan of the pair nor the cycle.
\<close>

theorem rule_exception_isolated:
  assumes "f df = Inl e"
  shows "run_rules (fs @ (name, f) # gs) df hits
           = run_rules (fs @ (name, rule_never_fires) # gs) df hits
       \<and> run_rules (fs @ (name, f) # gs) df hits
           = hits @ map fst (filter (\<lambda>nf. rule_passes (snd nf) df) fs)
                  @ map fst (filter (\<lambda>nf. rule_passes (snd nf) df) gs)
       \<and> aggregate s2i (fs @ (name, f) # gs) symb df
           = aggregate s2i (fs @ (name, rule_never_fires) # gs) symb df"
proof -
  have a: "\<not> rule_passes f df" using assms by (simp add: rule_passes_def)
  have b: "\<not> rule_passes rule_never_fires df"
    by (simp add: rule_passes_def rule_never_fires_def)
  have eq: "run_rules (fs @ (name, f) # gs) df hits
      = run_rules (fs @ (name, rule_never_fires) # gs) df hits" for hits
    by (simp add: run_rules_eq a b)
  show ?thesis using eq [of hits] eq [of "[]"]
    by (simp add: run_rules_eq a aggregate_def)
qed

lemma rules_split:
  "rules = [] @ (''rule_ema_cross'', rule_ema_cross) #
     [(''rule_boll_breakout'', rule_boll_breakout), (''rule_rsi_reclaim'', rule_rsi_reclaim),
      (''rule_obv_leads'', rule_obv_leads), (''rule_mcap_roc'', rule_mcap_roc)]"
  by (simp add: rules_def)

section \<open>The loop over the pairs\<close>

lemma scan_loop_all_ok:
  assumes "list_all (pair_scans gc s2f s2i) ps"
  shows "scan_loop gc s2f s2i (ps @ qs) tr
           = scan_loop gc s2f s2i qs (tr @ concat (map (pair_events gc s2f s2i) ps))"
  using assms
  by (induction ps arbitrary: tr)
     (auto simp: pair_scans_def pair_events_def split: sum.splits)

lemma scan_loop_raise:
  assumes "list_all (pair_scans gc s2f s2i) ps" and "scan_pair gc s2f s2i p = Inl e"
  shows "scan_loop gc s2f s2i (ps @ p # qs) tr
           = (tr @ concat (map (pair_events gc s2f s2i) ps), Some e)"
  by (simp add: scan_loop_all_ok [OF assms(1)] assms(2))

lemma main_cycles_Cons:
  "main_cycles s2f s2i (w # ws) = main_cycle s2f s2i w @ main_cycles s2f s2i ws"
  by (simp add: main_cycles_def)

lemma pair_symbol_default:
  "map_of p ''baseToken'' = None \<Longrightarrow> pair_symbol p = Inr (JStr ''?'')"
  by (simp add: pair_symbol_def pair_get_dict_def ebind_def)

lemma scan_null_liquidity:
  "scan_pair flat_source s2f s2i snap_null_liquidity = Inl AttributeError"
  by (simp add: scan_pair_def pair_symbol_default snap_null_liquidity_def pair_get_def
      flat_source_def ebind_def df_empty_def flat_candles_def enrich_with_snapshot_def
      snapshot_liq_usd_def pair_get_dict_def)

lemma enrich_string_liquidity:
  "enrich_with_snapshot s2f (flat_candles n c v) snap_string_liquidity
     = Inr (flat_enriched n c v NaN (JStr ''50000'') NaN)"
  by (simp add: enrich_with_snapshot_def snapshot_liq_usd_def snapshot_px_def
      snapshot_mcap_def flat_candles_def flat_enriched_def snap_string_liquidity_def
      pair_get_def pair_get_dict_def)

lemma guards_string_liquidity:
  "guards (flat_enriched 60 c v NaN (JStr ''50000'') NaN) = Inl TypeError"
proof -
  have nan: "iloc_last (rolling 20 win_mean (replicate 60 NaN)) = Inr NaN"
    by (rule last_rolling_nan_replicate) simp_all
  show ?thesis by (simp add: guards_def flat_enriched_def nan iloc_last_replicate)
qed

lemma scan_string_liquidity:
  "scan_pair flat_source s2f s2i snap_string_liquidity = Inl TypeError"
  by (simp add: scan_pair_def pair_symbol_default snap_string_liquidity_def pair_get_def
      flat_source_def ebind_def df_empty_def)
     (simp add: flat_candles_def enrich_string_liquidity [unfolded snap_string_liquidity_def flat_candles_def]
        guards_string_liquidity ebind_def Let_def)

lemma enrich_bare:
  "enrich_with_snapshot s2f (flat_candles n c v) snap_bare
     = Inr (flat_enriched n c v NaN (JNum 0) NaN)"
  by (simp add: enrich_with_snapshot_def snapshot_liq_usd_def snapshot_px_def
      snapshot_mcap_def flat_candles_def flat_enriched_def snap_bare_def
      pair_get_def pair_get_dict_def)

lemma guards_bare: "guards (flat_enriched 60 c v NaN (JNum 0) NaN) = Inr False"
proof -
  have nan: "iloc_last (rolling 20 win_mean (replicate 60 NaN)) = Inr NaN"
    by (rule last_rolling_nan_replicate) simp_all
  show ?thesis by (simp add: guards_def flat_enriched_def nan iloc_last_replicate)
qed

lemma scan_bare:
  "scan_pair flat_source s2f s2i snap_bare = Inr [Fetched (Scalar (JStr ''B''))]"
  by (simp add: scan_pair_def pair_symbol_default snap_bare_def pair_get_def
      flat_source_def ebind_def df_empty_def)
     (simp add: flat_candles_def enrich_bare [unfolded snap_bare_def flat_candles_def]
        guards_bare ebind_def Let_def)

text \<open>
  C3 (as amended). An exception raised while a pair is evaluated outside the rule
  functions (asking for its candles, enrichment, the guard check, the alert) leaves
  \<open>scan_once\<close>: the cycle ends there, with what the pairs before it did, and no pair after
  it is evaluated in that cycle. \<open>main\<close> catches the exception, prints it, and goes on
  with the next cycle.
\<close>

theorem pair_exception_ends_cycle:
  assumes "list_all (pair_scans gc s2f s2i) ps" and "scan_pair gc s2f s2i p = Inl e"
    and "length ps < PAIRS_PER_SCAN"
  shows "scan_once (Inr (ps @ p # qs)) gc s2f s2i
           = (concat (map (pair_events gc s2f s2i) ps), Some e)
       \<and> main_cycle s2f s2i (Inr (ps @ p # qs), gc)
           = concat (map (pair_events gc s2f s2i) ps) @ [LoopError e]
       \<and> main_cycles s2f s2i ((Inr (ps @ p # qs), gc) # worlds)
           = concat (map (pair_events gc s2f s2i) ps) @ [LoopError e]
               @ main_cycles s2f s2i worlds"
proof -
  have tk: "take PAIRS_PER_SCAN (ps @ p # qs) = ps @ p # take (PAIRS_PER_SCAN - length ps - 1) qs"
    using assms(3) by (simp add: take_Cons')
  have "scan_once (Inr (ps @ p # qs)) gc s2f s2i
          = scan_loop gc s2f s2i (take PAIRS_PER_SCAN (ps @ p # qs)) []"
    by (simp add: scan_once_def)
  also have "\<dots> = scan_loop gc s2f s2i (ps @ p # take (PAIRS_PER_SCAN - length ps - 1) qs) []"
    by (simp only: tk)
  also have "\<dots> = (concat (map (pair_events gc s2f s2i) ps), Some e)"
    using scan_loop_raise [OF assms(1,2), of _ "[]"] by simp
  finally have so: "scan_once (Inr (ps @ p # qs)) gc s2f s2i
           = (concat (map (pair_events gc s2f s2i) ps), Some e)" .
  then show ?thesis by (simp add: main_cycle_def main_cycles_Cons)
qed

theorem pair_exception_ends_cycle_witness:
  "main_cycles reads_nothing reads_no_int
     [(Inr [snap_bare, snap_null_liquidity, snap_bare], flat_source),
      (Inr [snap_bare], flat_source)]
     = [Fetched (Scalar (JStr ''B'')), LoopError AttributeError, Fetched (Scalar (JStr ''B''))]"
proof -
  have ok: "list_all (pair_scans flat_source reads_nothing reads_no_int) [snap_bare]"
    by (simp add: pair_scans_def scan_bare)
  have ev: "pair_events flat_source reads_nothing reads_no_int snap_bare
      = [Fetched (Scalar (JStr ''B''))]"
    by (simp add: pair_events_def scan_bare)
  have next_cycle: "main_cycles reads_nothing reads_no_int [(Inr [snap_bare], flat_source)]
      = [Fetched (Scalar (JStr ''B''))]"
    by (simp add: main_cycles_def main_cycle_def scan_once_def PAIRS_PER_SCAN_def scan_bare)
  from pair_exception_ends_cycle [OF ok scan_null_liquidity, of "[snap_bare]"
      "[(Inr [snap_bare], flat_source)]"]
  show ?thesis by (simp add: PAIRS_PER_SCAN_def ev next_cycle)
qed

text \<open>
  The claim as written fails: with \<open>"liquidity": null\<close> in the first snapshot enrichment
  raises AttributeError, with a liquidity given as a string the guard check raises
  TypeError, and in both cycles the second pair, which alone is fetched and evaluated, is
  never reached.
\<close>

theorem pair_exception_counterexample:
  "scan_once (Inr [snap_null_liquidity, snap_bare]) flat_source reads_nothing reads_no_int
     = ([], Some AttributeError)
   \<and> scan_once (Inr [snap_string_liquidity, snap_bare]) flat_source reads_nothing reads_no_int
     = ([], Some TypeError)
   \<and> scan_once (Inr [snap_bare]) flat_source reads_nothing reads_no_int
     = ([Fetched (Scalar (JStr ''B''))], None)"
  by (simp add: scan_once_def PAIRS_PER_SCAN_def scan_null_liquidity scan_string_liquidity
      scan_bare)

section \<open>The aggregator\<close>


lemma fl_mul_Fin_one [simp]: "fl_mul x (Fin 1) = x"
  by (cases x) (simp_all add: signed_inf_def)


lemma spike_volume_facts:
  "length (spike_volume vlast) = 21" "spike_volume vlast \<noteq> []"
  "last (spike_volume vlast) = Fin vlast"
  "drop (Suc 0) (spike_volume vlast) = map Fin (replicate 19 5000 @ [vlast])"
  by (simp_all add: spike_volume_def drop_map take_map)

lemma spike_volume_mean:
  "iloc_last (rolling 20 win_mean (spike_volume vlast)) = Inr (Fin ((95000 + vlast) / 20))"
  by (simp add: iloc_last_rolling spike_volume_facts win_mean_Fin real_mean_def
      sum_list_replicate del: map_append map_replicate)




lemma iloc_last_nth: "xs \<noteq> [] \<Longrightarrow> iloc_last xs = Inr (xs ! (length xs - 1))"
  by (simp add: iloc_last_def last_conv_nth)

lemma spike_close_facts: "length spike_close = 21" "spike_close \<noteq> []" "last spike_close = Fin 20"
  by (simp_all add: spike_close_def)



lemma fillna_map_Fin [simp]: "fillna a (map Fin w) = map Fin w"
  by (simp add: fillna_def)




lemma iloc_prev_nth: "2 \<le> length xs \<Longrightarrow> iloc_prev xs = Inr (xs ! (length xs - 2))"
  by (simp add: iloc_prev_def)

lemma length_bollinger [simp]:
  "length (fst (bollinger c n k)) = length c"
  "length (fst (snd (bollinger c n k))) = length c"
  "length (snd (snd (bollinger c n k))) = length c"
  by (simp_all add: bollinger_def Let_def)

lemma length_boll_bw [simp]: "length (boll_bw c) = length c"
  by (simp add: boll_bw_def bollinger_def Let_def)

lemma rolling_count_short:
  assumes "i < length xs" and "length xs < n"
  shows "\<exists>k. rolling_count n xs ! i = Fin (real k) \<and> k < n"
proof -
  have "length (filter (\<lambda>x. \<not> isnan x) (take (min n (i + 1)) (drop (i + 1 - n) xs))) \<le> i + 1"
    by (rule order_trans [OF length_filter_le]) simp
  then show ?thesis using assms by (simp add: rolling_count_def)
qed

lemma boll_pct20_short:
  assumes "bw \<noteq> []" and "length bw < 30"
  shows "boll_pct20 bw = Inr NaN"
proof -
  have i: "length bw - 1 < length bw" using assms(1) by (cases bw) simp_all
  from rolling_count_short [OF i assms(2)] obtain k where
    k: "rolling_count 30 bw ! (length bw - 1) = Fin (real k)" "k < 30" by blast
  have ne: "rolling_count 30 bw \<noteq> []" using assms(1) by (simp add: rolling_count_def)
  show ?thesis
    using k by (simp add: boll_pct20_def iloc_last_nth [OF ne])
qed

lemma rule_boll_short:
  assumes "close df = Some c" and "c \<noteq> []" and "length c < 30"
  shows "rule_boll_breakout df = Inr (False, [])"
proof -
  have bw: "boll_bw c \<noteq> []" using assms(2) by (metis length_boll_bw length_0_conv)
  have up: "fst (snd (bollinger c 20 2)) \<noteq> []"
    using assms(2) by (metis length_bollinger(2) length_0_conv)
  have sq: "boll_squeeze c = Inr False"
    using assms(3) by (simp add: boll_squeeze_def boll_pct20_short [OF bw])
  show ?thesis
    using assms(1,2) up
    by (simp add: rule_boll_breakout_def col_def sq iloc_last_def)
qed

lemma length_cumsum_from [simp]: "length (cumsum_from a xs) = length xs"
  by (induction xs arbitrary: a) simp_all

lemma length_obv [simp]: "length (obv c v) = min (length c) (length v)"
  by (simp add: obv_def cumsum_def fillna_def Let_def)

lemma rolling_prev_short:
  assumes "2 \<le> length xs" and "length xs \<le> n"
  shows "iloc_prev (rolling n f xs) = Inr NaN"
proof -
  have "length xs - 2 + 1 < n" using assms by simp
  then show ?thesis using assms(1) by (simp add: iloc_prev_nth rolling_nth del: One_nat_def)
qed

lemma rule_obv_short:
  assumes "close df = Some c" and "volume df = Some v" and "length v = length c"
    and "2 \<le> length c" and "length c \<le> 50"
  shows "rule_obv_leads df = Inr (False, [])"
proof -
  have ne: "c \<noteq> []" "obv c v \<noteq> []" using assms(3,4) by (auto simp: length_0_conv [symmetric] simp del: length_0_conv)
  have l2: "2 \<le> length (obv c v)" "length (obv c v) \<le> 50" using assms(3,4,5) by simp_all
  show ?thesis
    using ne
    by (simp add: rule_obv_leads_def col_def assms(1,2) Let_def iloc_last_def
        rolling_prev_short [OF assms(4,5)] rolling_prev_short [OF l2])
qed




lemma build_alert_spike:
  "build_alert reads_no_int (JStr ''?'') hits (spike_enriched vlast)
     = Inr \<lparr>symbol = JStr ''?'', signals = hits, price = Fin 20,
            vol20avg = Fin ((95000 + vlast) / 20), liq = 50000, mcap_roc = Some (Fin 0)\<rparr>"
  by (simp add: build_alert_def ebind_def col_def spike_enriched_def iloc_last_replicate
      spike_volume_mean pct_change_def iloc_last_map_upt ROC_WINDOW_def)
     (simp add: iloc_last_def spike_close_facts)

section \<open>The Bollinger squeeze\<close>

lemma not_isnan_iff: "(\<not> list_ex isnan ys) = (\<forall>y\<in>set ys. \<not> isnan y)"
  by (simp add: list_ex_iff)

lemma rolling_nan_prefix_nth:
  assumes "\<not> list_ex isnan ys" and "0 < n" and "i < a + length ys"
  shows "rolling n f (replicate a NaN @ ys) ! i =
           (if i + 1 < a + n then NaN else f (take n (drop (i + 1 - n - a) ys)))"
proof (cases "i + 1 < n")
  case True
  then show ?thesis using assms(3) by (simp add: rolling_nth)
next
  case False
  let ?w = "take n (drop (i + 1 - n) (replicate a NaN @ ys))"
  show ?thesis
  proof (cases "i + 1 < a + n")
    case True
    with False have lt: "i + 1 - n < a" by simp
    have k: "i + 1 - n \<le> length (replicate a NaN @ ys)" using assms(3) by simp
    have "?w ! 0 = drop (i + 1 - n) (replicate a NaN @ ys) ! 0"
      using assms(2) by (rule nth_take)
    also have "\<dots> = (replicate a NaN @ ys) ! (i + 1 - n + 0)"
      using k by (rule nth_drop)
    also have "\<dots> = NaN" using lt by (simp add: nth_append)
    finally have "?w ! 0 = NaN" .
    moreover have "0 < length ?w"
    proof -
      have "i + 1 - n < a + length ys" using assms(2,3) by arith
      then show ?thesis using assms(2) by (simp del: take_append drop_append)
    qed
    ultimately have "list_ex isnan ?w"
      unfolding list_ex_length by (metis isnan.simps(1))
    then show ?thesis using True False assms(3) by (simp add: rolling_nth)
  next
    case ge: False
    then have w: "?w = take n (drop (i + 1 - n - a) ys)" by simp
    have "\<not> list_ex isnan (take n (drop (i + 1 - n - a) ys))"
      using assms(1) by (auto simp: list_ex_iff dest!: in_set_takeD in_set_dropD)
    then show ?thesis using ge False assms(3) by (simp add: rolling_nth w Let_def)
  qed
qed

lemma last_take_drop:
  assumes "j + n \<le> length ys" and "0 < n"
  shows "last (take n (drop j ys)) = ys ! (j + (n - 1))"
proof -
  have len: "length (take n (drop j ys)) = n" using assms(1) by simp
  then have ne: "take n (drop j ys) \<noteq> []" using assms(2) by auto
  have "last (take n (drop j ys)) = take n (drop j ys) ! (n - 1)"
    by (simp only: last_conv_nth [OF ne] len)
  also have "\<dots> = drop j ys ! (n - 1)" using assms(2) by simp
  also have "\<dots> = ys ! (j + (n - 1))" using assms(1) by simp
  finally show ?thesis .
qed

lemma drop_nan_prefix: "drop (a + m) (replicate a x @ ys) = drop m ys"
  by simp

lemma rolling_last_nan_prefix:
  assumes "\<not> list_ex isnan ys" and "0 < n" and "n \<le> length ys"
  shows "rolling n last (replicate a NaN @ ys) = replicate (a + n - 1) NaN @ drop (n - 1) ys"
proof (rule nth_equalityI)
  show "length (rolling n last (replicate a NaN @ ys))
      = length (replicate (a + n - 1) NaN @ drop (n - 1) ys)"
    using assms(2,3) by simp
next
  fix i assume "i < length (rolling n last (replicate a NaN @ ys))"
  then have i: "i < a + length ys" by simp
  show "rolling n last (replicate a NaN @ ys) ! i
      = (replicate (a + n - 1) NaN @ drop (n - 1) ys) ! i"
  proof (cases "i + 1 < a + n")
    case True
    then have "i < a + n - 1" by simp
    then show ?thesis
      using True rolling_nan_prefix_nth [OF assms(1,2) i, of last] by (simp add: nth_append)
  next
    case False
    then have j: "i + 1 - n - a + n \<le> length ys" "i - (a + n - 1) = i + 1 - n - a"
      using i assms(2) by simp_all
    have l: "last (take n (drop (i + 1 - n - a) ys)) = ys ! (i + 1 - n - a + (n - 1))"
      using j(1) assms(2) by (rule last_take_drop)
    have lhs: "rolling n last (replicate a NaN @ ys) ! i = ys ! (i + 1 - n - a + (n - 1))"
      using False rolling_nan_prefix_nth [OF assms(1,2) i, of last] l by simp
    have ge: "\<not> i < a + n - 1" using False by simp
    have "(replicate (a + n - 1) NaN @ drop (n - 1) ys) ! i = drop (n - 1) ys ! (i - (a + n - 1))"
      using ge by (simp add: nth_append)
    also have "\<dots> = ys ! (n - 1 + (i - (a + n - 1)))"
      using assms(3) by simp
    also have "n - 1 + (i - (a + n - 1)) = i + 1 - n - a + (n - 1)"
      using ge assms(2) by arith
    finally show ?thesis using lhs by simp
  qed
qed

lemma dropna_nan_prefix:
  "\<not> list_ex isnan zs \<Longrightarrow> dropna (replicate k NaN @ zs) = zs"
  by (induction k) (auto simp: dropna_def list_ex_iff filter_id_conv)

lemma rolling_count_last_full:
  assumes "\<not> list_ex isnan ys" and "30 \<le> length ys"
  shows "iloc_last (rolling_count 30 (replicate a NaN @ ys)) = Inr (Fin 30)"
proof -
  let ?xs = "replicate a NaN @ ys"
  have len: "length ?xs = a + length ys" by simp
  have ne: "rolling_count 30 ?xs \<noteq> []" using assms(2) by (auto simp: rolling_count_def)
  define i where "i = a + length ys - 1"
  have i: "i < a + length ys" "i + 1 = a + length ys" using assms(2) by (simp_all add: i_def)
  have "i + 1 - 30 = a + (length ys - 30)" using assms(2) i(2) by arith
  then have "drop (i + 1 - 30) ?xs = drop (length ys - 30) ys"
    by (simp only: drop_nan_prefix)
  moreover have "length (drop (length ys - 30) ys) \<le> min 30 (i + 1)"
    using assms(2) i(2) by simp
  ultimately have w: "take (min 30 (i + 1)) (drop (i + 1 - 30) ?xs) = drop (length ys - 30) ys"
    by (simp only: take_all)
  have f: "filter (\<lambda>x. \<not> isnan x) (drop (length ys - 30) ys) = drop (length ys - 30) ys"
    using assms(1) by (auto simp: filter_id_conv list_ex_iff dest: in_set_dropD)
  have "rolling_count 30 ?xs ! i
      = Fin (real (length (filter (\<lambda>x. \<not> isnan x)
                     (take (min 30 (i + 1)) (drop (i + 1 - 30) ?xs)))))"
    using i(1) by (simp add: rolling_count_def del: take_append drop_append)
  also have "\<dots> = Fin 30" using assms(2) by (simp only: w f) simp
  finally have "rolling_count 30 ?xs ! (a + length ys - 1) = Fin 30" by (simp add: i_def)
  then show ?thesis
    using ne by (simp add: iloc_last_def last_conv_nth len)
qed

text \<open>The values under the percentile: every bandwidth from the first complete window of
  thirty on, not the last thirty.\<close>

lemma boll_pct20_values:
  assumes "\<not> list_ex isnan ys" and "30 \<le> length ys"
  shows "boll_pct20 (replicate a NaN @ ys) = Inr (percentile 20 (drop 29 ys))"
proof -
  have d: "\<not> list_ex isnan (drop 29 ys)"
    using assms(1) by (auto simp: list_ex_iff dest: in_set_dropD)
  show ?thesis
    using assms(2)
    by (simp add: boll_pct20_def rolling_count_last_full [OF assms]
        rolling_last_nan_prefix [OF assms(1)] dropna_nan_prefix [OF d])
qed

lemma boll_bw_nth:
  assumes "i < length cs"
  shows "boll_bw (map Fin cs) ! i =
           (if i < 19 then NaN
            else fl_div (Fin ((real_mean (take 20 (drop (i - 19) cs))
                                + 2 * sample_std (take 20 (drop (i - 19) cs)))
                              - (real_mean (take 20 (drop (i - 19) cs))
                                - 2 * sample_std (take 20 (drop (i - 19) cs)))))
                        (Fin (real_mean (take 20 (drop (i - 19) cs)))))"
proof (cases "i < 19")
  case True
  then show ?thesis using assms by (simp add: boll_bw_def bollinger_def rolling_nth Let_def)
next
  case False
  then have idx: "i + 1 - 20 = i - 19" and ge: "\<not> i + 1 < 20" by simp_all
  let ?w = "take 20 (drop (i - 19) cs)"
  have len: "length ?w = 20" using assms False by simp
  then have ne: "?w \<noteq> []" and two: "2 \<le> length ?w" by auto
  have w: "take 20 (drop (i - 19) (map Fin cs)) = map Fin ?w"
    by (simp add: take_map drop_map)
  show ?thesis
    using assms False ge
    by (simp add: boll_bw_def bollinger_def rolling_nth Let_def idx w
        win_mean_Fin [OF ne] win_std_Fin [OF two] del: take_map drop_map)
qed

lemma twin_spike_length: "length twin_spike = 60"
  by (simp add: twin_spike_def)

lemma twin_window_flat:
  assumes "19 \<le> i" and "i < 48"
  shows "take 20 (drop (i - 19) twin_spike) = replicate 20 1"
proof -
  have "min 20 (48 - (i - 19)) = 20" using assms by simp
  then show ?thesis using assms by (simp add: twin_spike_def)
qed

lemma twin_window_one:
  assumes "48 \<le> i" and "i < 59"
  shows "take 20 (drop (i - 19) twin_spike) = replicate (67 - i) 1 @ 21 # replicate (i - 48) 1"
proof -
  have a: "48 - (i - 19) = 67 - i" "min 20 (67 - i) = 67 - i" "20 - (67 - i) = Suc (i - 48)"
    "i - 19 - 48 = 0" "min (i - 48) 10 = i - 48"
    using assms by simp_all
  show ?thesis using assms by (simp add: twin_spike_def a)
qed

lemma twin_window_two:
  "take 20 (drop 40 twin_spike) = replicate 8 1 @ 21 # replicate 10 1 @ [21]"
  by (simp add: twin_spike_def)

lemma stats_flat:
  "real_mean (replicate 20 1) = 1" "sample_std (replicate 20 1) = 0"
  by (simp_all add: real_mean_def sample_std_def sum_sq_dev_def sum_list_replicate)

lemma stats_one:
  assumes "p + q = 19"
  shows "real_mean (replicate p 1 @ 21 # replicate q 1) = 2"
    and "sample_std (replicate p 1 @ 21 # replicate q 1) = sqrt 20"
proof -
  have pq: "real p + real q = 19" using assms by (metis of_nat_add of_nat_numeral)
  show m: "real_mean (replicate p 1 @ 21 # replicate q 1) = 2"
    using pq assms by (simp add: real_mean_def sum_list_replicate)
  have "sum_sq_dev (replicate p 1 @ 21 # replicate q 1) = 380"
    using pq by (simp add: sum_sq_dev_def m sum_list_replicate algebra_simps)
  then show "sample_std (replicate p 1 @ 21 # replicate q 1) = sqrt 20"
    using assms by (simp add: sample_std_def)
qed

lemma stats_two:
  "real_mean (replicate 8 1 @ 21 # replicate 10 1 @ [21]) = 3"
  "sample_std (replicate 8 1 @ 21 # replicate 10 1 @ [21]) = sqrt (720 / 19)"
proof -
  show m: "real_mean (replicate 8 1 @ 21 # replicate 10 1 @ [21]) = 3"
    by (simp add: real_mean_def sum_list_replicate)
  have "sum_sq_dev (replicate 8 1 @ 21 # replicate 10 1 @ [21]) = 720"
    by (simp add: sum_sq_dev_def m sum_list_replicate)
  then show "sample_std (replicate 8 1 @ 21 # replicate 10 1 @ [21]) = sqrt (720 / 19)"
    by (simp add: sample_std_def)
qed

lemma twin_bw:
  "boll_bw (map Fin twin_spike)
     = replicate 19 NaN
       @ map Fin (replicate 29 0 @ replicate 11 (2 * sqrt 20) @ [4 * sqrt (720 / 19) / 3])"
proof (rule nth_equalityI)
  show "length (boll_bw (map Fin twin_spike))
      = length (replicate 19 NaN
          @ map Fin (replicate 29 0 @ replicate 11 (2 * sqrt 20) @ [4 * sqrt (720 / 19) / 3]))"
    by (simp add: twin_spike_length)
next
  fix i assume "i < length (boll_bw (map Fin twin_spike))"
  then have i: "i < length twin_spike" and i60: "i < 60" by (simp_all add: twin_spike_length)
  let ?rhs = "replicate 19 NaN
       @ map Fin (replicate 29 0 @ replicate 11 (2 * sqrt 20) @ [4 * sqrt (720 / 19) / 3])"
  consider "i < 19" | "19 \<le> i" "i < 48" | "48 \<le> i" "i < 59" | "i = 59"
    using i60 by linarith
  then show "boll_bw (map Fin twin_spike) ! i = ?rhs ! i"
  proof cases
    case 1
    then show ?thesis by (simp add: boll_bw_nth [OF i] nth_append)
  next
    case 2
    then have r: "?rhs ! i = Fin 0" by (simp add: nth_append)
    have "boll_bw (map Fin twin_spike) ! i = Fin 0"
      using 2 by (simp add: boll_bw_nth [OF i] twin_window_flat stats_flat)
    then show ?thesis by (simp only: r)
  next
    case 3
    then have pq: "67 - i + (i - 48) = 19" by simp
    have "i - 48 < 11" "\<not> i - 19 < 29" "\<not> i < 19" using 3 by simp_all
    then have r: "?rhs ! i = Fin (2 * sqrt 20)"
      by (simp add: nth_append)
    have "boll_bw (map Fin twin_spike) ! i = Fin (2 * sqrt 20)"
      using 3 by (simp add: boll_bw_nth [OF i] twin_window_one stats_one [OF pq])
    then show ?thesis by (simp only: r)
  next
    case 4
    have r: "?rhs ! 59 = Fin (4 * sqrt (720 / 19) / 3)"
      by (simp add: nth_append)
    have "boll_bw (map Fin twin_spike) ! 59 = Fin (4 * sqrt (720 / 19) / 3)"
      using i 4 by (simp add: boll_bw_nth twin_window_two stats_two)
    then show ?thesis by (simp only: 4 r)
  qed
qed

lemma twin_values:
  "0 < 4 * sqrt (720 / 19) / 3" "4 * sqrt (720 / 19) / 3 < 2 * sqrt 20"
  "3 + 2 * sqrt (720 / 19) < 21"
proof -
  show "0 < 4 * sqrt (720 / 19) / 3" by simp
  have "(4 * sqrt (720 / 19) / 3)\<^sup>2 < (2 * sqrt 20)\<^sup>2"
    by (simp add: power_mult_distrib power_divide)
  then show "4 * sqrt (720 / 19) / 3 < 2 * sqrt 20"
    by (rule power2_less_imp_less) simp
  have "(sqrt (720 / 19))\<^sup>2 < 9\<^sup>2" by simp
  then have "sqrt (720 / 19) < 9" by (rule power2_less_imp_less) simp
  then show "3 + 2 * sqrt (720 / 19) < 21" by simp
qed

lemma fl_insert_replicate:
  "\<not> isnan x \<Longrightarrow> fl_insert x (replicate k x) = replicate (Suc k) x"
  by (cases k; cases x) simp_all

lemma foldr_insert_same:
  "\<not> isnan x \<Longrightarrow> foldr fl_insert (replicate k x) (replicate j x) = replicate (k + j) x"
  by (induction k) (simp_all add: fl_insert_replicate)

lemma foldr_insert_above:
  assumes "fl_lt y x"
  shows "foldr fl_insert (replicate k x) [y] = y # replicate k x"
proof (induction k)
  case 0
  then show ?case by simp
next
  case (Suc k)
  have nx: "\<not> isnan x" using assms by (cases x; cases y) simp_all
  have nle: "\<not> fl_le x y" using assms by (cases x; cases y) simp_all
  show ?case using Suc nle by (simp add: fl_insert_replicate [OF nx])
qed

lemma foldr_insert_zeros:
  assumes "fl_le (Fin 0) z"
  shows "foldr fl_insert (replicate k (Fin 0)) (z # zs) = replicate k (Fin 0) @ z # zs"
proof (induction k)
  case 0
  then show ?case by simp
next
  case (Suc k)
  show ?case
  proof (cases k)
    case 0
    then show ?thesis using assms by simp
  next
    case (Suc j)
    then show ?thesis using \<open>foldr fl_insert (replicate k (Fin 0)) (z # zs)
        = replicate k (Fin 0) @ z # zs\<close> by simp
  qed
qed

lemma fl_sort_append: "fl_sort (xs @ ys) = foldr fl_insert xs (fl_sort ys)"
  by (simp add: fl_sort_def)

lemma sort_top:
  assumes "b < a"
  shows "fl_sort (replicate k (Fin a) @ [Fin b]) = Fin b # replicate k (Fin a)"
proof -
  have "fl_sort (replicate k (Fin a) @ [Fin b])
      = foldr fl_insert (replicate k (Fin a)) (fl_sort [Fin b])"
    by (rule fl_sort_append)
  also have "fl_sort [Fin b] = [Fin b]" by (simp add: fl_sort_def)
  also have "foldr fl_insert (replicate k (Fin a)) [Fin b] = Fin b # replicate k (Fin a)"
    using assms by (intro foldr_insert_above) simp
  finally show ?thesis .
qed

lemma sort_zeros_top:
  assumes "b < a" and "0 \<le> b"
  shows "fl_sort (replicate j (Fin 0) @ replicate k (Fin a) @ [Fin b])
       = replicate j (Fin 0) @ Fin b # replicate k (Fin a)"
proof -
  have "fl_sort (replicate j (Fin 0) @ replicate k (Fin a) @ [Fin b])
      = foldr fl_insert (replicate j (Fin 0)) (fl_sort (replicate k (Fin a) @ [Fin b]))"
    by (rule fl_sort_append)
  also have "\<dots> = foldr fl_insert (replicate j (Fin 0)) (Fin b # replicate k (Fin a))"
    by (simp only: sort_top [OF assms(1)])
  also have "\<dots> = replicate j (Fin 0) @ Fin b # replicate k (Fin a)"
    using assms(2) by (intro foldr_insert_zeros) simp
  finally show ?thesis .
qed

lemma percentile_top:
  assumes "b < a"
  shows "percentile 20 (replicate 11 (Fin a) @ [Fin b]) = Fin a"
  by (simp add: percentile_def sort_top [OF assms] Let_def)

lemma percentile_zeros_top:
  assumes "b < a" and "0 \<le> b"
  shows "percentile 20 (replicate 18 (Fin 0) @ replicate 11 (Fin a) @ [Fin b]) = Fin 0"
  by (simp add: percentile_def sort_zeros_top [OF assms] Let_def nth_append)

lemma twin_bw_valid:
  "\<not> list_ex isnan (map Fin (replicate 29 0 @ replicate 11 (2 * sqrt 20) @ [4 * sqrt (720 / 19) / 3]))"
  by (rule not_isnan_map_Fin)

lemma twin_pct20: "boll_pct20 (boll_bw (map Fin twin_spike)) = Inr (Fin (2 * sqrt 20))"
proof -
  have d: "drop 29 (map Fin (replicate 29 0 @ replicate 11 (2 * sqrt 20) @ [4 * sqrt (720 / 19) / 3]))
      = replicate 11 (Fin (2 * sqrt 20)) @ [Fin (4 * sqrt (720 / 19) / 3)]"
    by simp
  have "boll_pct20 (boll_bw (map Fin twin_spike))
      = Inr (percentile 20 (drop 29 (map Fin (replicate 29 0 @ replicate 11 (2 * sqrt 20)
            @ [4 * sqrt (720 / 19) / 3]))))"
    unfolding twin_bw by (rule boll_pct20_values [OF twin_bw_valid]) simp
  also have "\<dots> = Inr (Fin (2 * sqrt 20))"
    by (simp only: d percentile_top [OF twin_values(2)])
  finally show ?thesis .
qed

lemma twin_bw_last: "iloc_last (boll_bw (map Fin twin_spike)) = Inr (Fin (4 * sqrt (720 / 19) / 3))"
  by (simp add: twin_bw iloc_last_def)

lemma twin_squeeze: "boll_squeeze (map Fin twin_spike) = Inr True"
  using twin_values(2) by (simp add: boll_squeeze_def twin_pct20 twin_bw_last)

lemma twin_upper:
  "iloc_last (fst (snd (bollinger (map Fin twin_spike) 20 2))) = Inr (Fin (3 + 2 * sqrt (720 / 19)))"
proof -
  obtain ma up dn where b: "bollinger (map Fin twin_spike) 20 2 = (ma, up, dn)"
    by (cases "bollinger (map Fin twin_spike) 20 2") auto
  have i: "59 < length (map Fin twin_spike)" by (simp add: twin_spike_length)
  have w: "take 20 (drop 40 (map Fin twin_spike))
      = map Fin (replicate 8 1 @ 21 # replicate 10 1 @ [21])"
    by (simp only: drop_map take_map twin_window_two)
  have ne: "replicate 8 1 @ 21 # replicate 10 1 @ [21::real] \<noteq> []" by simp
  have two: "2 \<le> length (replicate 8 1 @ 21 # replicate 10 1 @ [21::real])" by simp
  have "up ! 59 = Fin (3 + 2 * sqrt (720 / 19))"
    by (simp add: bollinger_nth(2) [OF b i] rolling_nth twin_spike_length w
        win_mean_Fin [OF ne] win_std_Fin [OF two] stats_two
        del: take_map drop_map map_append map_replicate list.map)
  moreover have "length up = 60" using bollinger_lengths [OF b] by (simp add: twin_spike_length)
  moreover from this have "up \<noteq> []" by auto
  ultimately show ?thesis by (simp add: b iloc_last_def last_conv_nth)
qed

lemma twin_rule: "rule_boll_breakout twin_spike_frame = Inr (True, [])"
proof -
  have la: "iloc_last (map Fin twin_spike) = Inr (Fin 21)"
    by (simp add: iloc_last_def twin_spike_def)
  show ?thesis
    using twin_values(3)
    by (simp add: rule_boll_breakout_def twin_spike_frame_def col_def twin_squeeze la twin_upper)
qed

lemma twin_spec: "\<not> squeeze_last30 (map Fin twin_spike)"
proof -
  have d: "drop 30 (replicate 19 NaN @ map Fin (replicate 29 0 @ replicate 11 (2 * sqrt 20)
            @ [4 * sqrt (720 / 19) / 3]))
      = replicate 18 (Fin 0) @ replicate 11 (Fin (2 * sqrt 20)) @ [Fin (4 * sqrt (720 / 19) / 3)]"
    by simp
  have v: "\<not> list_ex isnan (replicate 18 (Fin 0) @ replicate 11 (Fin (2 * sqrt 20))
      @ [Fin (4 * sqrt (720 / 19) / 3)])"
    by (simp add: list_ex_iff)
  have dn: "dropna (replicate 18 (Fin 0) @ replicate 11 (Fin (2 * sqrt 20))
        @ [Fin (4 * sqrt (720 / 19) / 3)])
      = replicate 18 (Fin 0) @ replicate 11 (Fin (2 * sqrt 20)) @ [Fin (4 * sqrt (720 / 19) / 3)]"
    using dropna_nan_prefix [OF v, of 0] by simp
  have p: "percentile 20 (replicate 18 (Fin 0) @ replicate 11 (Fin (2 * sqrt 20))
        @ [Fin (4 * sqrt (720 / 19) / 3)]) = Fin 0"
    using twin_values(1,2) by (intro percentile_zeros_top) simp_all
  have la: "last (boll_bw (map Fin twin_spike)) = Fin (4 * sqrt (720 / 19) / 3)"
    by (simp add: twin_bw)
  have len: "length (boll_bw (map Fin twin_spike)) - 30 = 30"
    by (simp add: twin_spike_length)
  have "\<not> fl_le (last (boll_bw (map Fin twin_spike)))
           (percentile 20 (dropna (drop (length (boll_bw (map Fin twin_spike)) - 30)
               (boll_bw (map Fin twin_spike)))))"
    unfolding len la unfolding twin_bw d dn p using twin_values(1) by simp
  then show ?thesis by (simp add: squeeze_last30_def Let_def)
qed

lemma twin_valid_count: "length (dropna (boll_bw (map Fin twin_spike))) = 41"
  using dropna_nan_prefix [OF twin_bw_valid, of 19] by (simp add: twin_bw)

lemma length_filter_take_drop:
  "length (filter P (take a (drop b xs))) \<le> length (filter P xs)"
proof -
  have "drop b xs = take a (drop b xs) @ drop a (drop b xs)"
    by (simp only: append_take_drop_id)
  then have "take b xs @ drop b xs = take b xs @ take a (drop b xs) @ drop a (drop b xs)"
    by (simp only:)
  then have "xs = take b xs @ take a (drop b xs) @ drop a (drop b xs)"
    by (simp only: append_take_drop_id)
  then have "filter P xs
      = filter P (take b xs) @ filter P (take a (drop b xs)) @ filter P (drop a (drop b xs))"
    by (metis filter_append)
  then have "length (filter P xs)
      = length (filter P (take b xs)) + length (filter P (take a (drop b xs)))
        + length (filter P (drop a (drop b xs)))"
    by (metis length_append add.assoc)
  then show ?thesis by simp
qed

lemma boll_pct20_few_valid:
  assumes "bw \<noteq> []" and "length (dropna bw) < 30"
  shows "boll_pct20 bw = Inr NaN"
proof -
  let ?i = "length bw - 1"
  have i: "?i < length bw" using assms(1) by (cases bw) simp_all
  have ne: "rolling_count 30 bw \<noteq> []" using assms(1) by (simp add: rolling_count_def)
  have "length (filter (\<lambda>x. \<not> isnan x) (take (min 30 (?i + 1)) (drop (?i + 1 - 30) bw)))
      \<le> length (dropna bw)"
    unfolding dropna_def by (rule length_filter_take_drop)
  then have "length (filter (\<lambda>x. \<not> isnan x) (take (min 30 (?i + 1)) (drop (?i + 1 - 30) bw)))
      < 30"
    using assms(2) by simp
  moreover have "rolling_count 30 bw ! ?i
      = Fin (real (length (filter (\<lambda>x. \<not> isnan x)
                     (take (min 30 (?i + 1)) (drop (?i + 1 - 30) bw)))))"
    using i by (simp add: rolling_count_def del: One_nat_def)
  ultimately show ?thesis
    by (simp add: boll_pct20_def iloc_last_nth [OF ne] del: One_nat_def)
qed

lemma rule_boll_inert_few_valid:
  assumes "close df = Some c" and "c \<noteq> []" and "length (dropna (boll_bw c)) < 30"
  shows "rule_boll_breakout df = Inr (False, [])"
proof -
  have bw: "boll_bw c \<noteq> []" using assms(2) by (metis length_boll_bw length_0_conv)
  have up: "fst (snd (bollinger c 20 2)) \<noteq> []"
    using assms(2) by (metis length_bollinger(2) length_0_conv)
  have sq: "boll_squeeze c = Inr False"
    by (simp add: boll_squeeze_def boll_pct20_few_valid [OF bw assms(3)])
  show ?thesis
    using assms(1,2) up
    by (simp add: rule_boll_breakout_def col_def sq iloc_last_def)
qed

section \<open>Sixty bars, end to end\<close>

lemma twin_nth:
  "i < 60 \<Longrightarrow> twin_spike ! i = (if i = 48 \<or> i = 59 then 21 else 1)"
  by (auto simp: twin_spike_def nth_append nth_Cons')

lemma twin_diff_nth:
  assumes "0 < i" and "i < 60"
  shows "diff (map Fin twin_spike) ! i =
     Fin ((if i = 48 \<or> i = 59 then 21 else 1) - (if i = 49 then 21 else 1))"
proof -
  have a: "(i - 1 = 48) = (i = 49)" "i - 1 \<noteq> 59" "i - 1 < 60" using assms by arith+
  have "twin_spike ! (i - 1) = (if i = 49 then 21 else 1)"
    by (simp only: twin_nth [OF a(3)] a(1,2) simp_thms)
  then have p: "twin_spike ! (i - Suc 0) = (if i = 49 then 21 else 1)" by simp
  have q: "twin_spike ! i = (if i = 48 \<or> i = 59 then 21 else 1)"
    using assms(2) by (rule twin_nth)
  show ?thesis using assms by (simp add: diff_nth twin_spike_length p q)
qed

lemma take_drop_nth:
  "k + n \<le> length xs \<Longrightarrow> take n (drop k xs) = map (\<lambda>i. xs ! i) [k..<k + n]"
  by (rule nth_equalityI) simp_all

lemma twin_rsi: "iloc_last (rsi (map Fin twin_spike) 14) = Inr (Fin (200 / 3))"
proof -
  have ne: "rsi (map Fin twin_spike) 14 \<noteq> []"
    using length_rsi(2) [of "map Fin twin_spike" 14]
    by (auto simp: twin_spike_length simp del: length_rsi)
  have "drop 46 (diff (map Fin twin_spike))
      = take 14 (drop 46 (diff (map Fin twin_spike)))"
    by (simp add: twin_spike_length)
  also have "\<dots> = map (\<lambda>i. diff (map Fin twin_spike) ! i) [46..<46 + 14]"
    by (rule take_drop_nth) (simp add: twin_spike_length)
  also have "\<dots> = map Fin [0, 0, 20, - 20, 0, 0, 0, 0, 0, 0, 0, 0, 0, 20]"
    by (simp add: twin_diff_nth upt_rec)
  finally have d: "drop 46 (diff (map Fin twin_spike))
      = map Fin [0, 0, 20, - 20, 0, 0, 0, 0, 0, 0, 0, 0, 0, 20]" .
  have "rsi (map Fin twin_spike) 14 ! 59 = Fin (200 / 3)"
    by (simp add: rsi_def rsi_rs_def rsi_avg_gain_def rsi_avg_loss_def rolling_nth
        twin_spike_length drop_map d
        replace_val_def win_mean_def fl_sum_def Let_def clip_lower_def)
  then show ?thesis by (simp add: iloc_last_nth [OF ne] twin_spike_length)
qed

lemma twin_diff_list:
  "diff (map Fin twin_spike) = NaN # map Fin (replicate 47 0 @ 20 # (- 20) # replicate 9 0 @ [20])"
proof (rule nth_equalityI)
  show "length (diff (map Fin twin_spike))
      = length (NaN # map Fin (replicate 47 0 @ 20 # (- 20) # replicate 9 0 @ [20]))"
    by (simp add: twin_spike_length)
next
  fix i assume "i < length (diff (map Fin twin_spike))"
  then have i: "i < 60" by (simp add: twin_spike_length)
  show "diff (map Fin twin_spike) ! i
      = (NaN # map Fin (replicate 47 0 @ 20 # (- 20) # replicate 9 0 @ [20])) ! i"
  proof (cases "i = 0")
    case True
    then show ?thesis by (simp add: diff_nth twin_spike_length)
  next
    case False
    then have pos: "0 < i" by simp
    consider "i < 48" | "i = 48" | "i = 49" | "49 < i" "i < 59" | "i = 59"
      using i by linarith
    then show ?thesis
    proof cases
      case 1
      then have "i - 1 < 47" using pos by simp
      then show ?thesis using twin_diff_nth [OF pos i] 1 pos by (simp add: nth_Cons' nth_append)
    next
      case 2
      then show ?thesis using twin_diff_nth [OF pos i] by (simp add: nth_Cons' nth_append)
    next
      case 3
      then show ?thesis using twin_diff_nth [OF pos i] by (simp add: nth_Cons' nth_append)
    next
      case 4
      then have "\<not> i - 1 < 47" "i - 1 - 47 \<noteq> 0" "i - 1 - 47 - 1 \<noteq> 0" "i - 1 - 47 - 1 - 1 < 9"
        by simp_all
      then show ?thesis using twin_diff_nth [OF pos i] 4 pos by (simp add: nth_Cons' nth_append)
    next
      case 5
      then show ?thesis using twin_diff_nth [OF pos i] by (simp add: nth_Cons' nth_append)
    qed
  qed
qed

lemma cumsum_from_zeros:
  "cumsum_from (Fin a) (replicate k (Fin 0) @ xs) = replicate k (Fin a) @ cumsum_from (Fin a) xs"
  by (induction k) simp_all

lemma zip_replicate_right: "map2 f xs (replicate (length xs) y) = map (\<lambda>x. f x y) xs"
  by (induction xs) simp_all

lemma twin_obv:
  "obv (map Fin twin_spike) (replicate 60 (Fin 5000))
     = replicate 48 (Fin 0) @ Fin 5000 # replicate 10 (Fin 0) @ [Fin 5000]"
proof -
  have len: "length (map fl_sign (fillna 0 (diff (map Fin twin_spike)))) = 60"
    by (simp add: fillna_def twin_spike_length)
  have "map2 fl_mul (map fl_sign (fillna 0 (diff (map Fin twin_spike)))) (replicate 60 (Fin 5000))
      = map (\<lambda>x. fl_mul x (Fin 5000)) (map fl_sign (fillna 0 (diff (map Fin twin_spike))))"
    using zip_replicate_right [of fl_mul "map fl_sign (fillna 0 (diff (map Fin twin_spike)))" "Fin 5000"]
    by (simp only: len)
  also have "\<dots> = replicate 48 (Fin 0) @ Fin 5000 # Fin (- 5000) # replicate 9 (Fin 0) @ [Fin 5000]"
  proof -
    have "replicate 48 (Fin (0::real)) = replicate (Suc 47) (Fin 0)" by simp
    also have "\<dots> = replicate 47 (Fin 0) @ [Fin 0]"
      by (simp only: replicate_append_same replicate_Suc)
    finally have r48: "replicate 47 (Fin (0::real)) @ [Fin 0] = replicate 48 (Fin 0)" by simp
    have "replicate (Suc 47) (Fin (0::real)) = Fin 0 # replicate 47 (Fin 0)"
      by (rule replicate_Suc)
    then have r48': "Fin 0 # replicate 47 (Fin (0::real)) = replicate 48 (Fin 0)" by simp
    show ?thesis
      by (simp add: twin_diff_list fillna_def) (simp add: r48 r48')
  qed
  finally have p: "map2 fl_mul (map fl_sign (fillna 0 (diff (map Fin twin_spike))))
        (replicate 60 (Fin 5000))
      = replicate 48 (Fin 0) @ Fin 5000 # Fin (- 5000) # replicate 9 (Fin 0) @ [Fin 5000]" .
  have f: "fillna 0 (replicate 48 (Fin 0) @ Fin 5000 # Fin (- 5000) # replicate 9 (Fin 0) @ [Fin 5000])
      = replicate 48 (Fin 0) @ Fin 5000 # Fin (- 5000) # replicate 9 (Fin 0) @ [Fin 5000]"
    by (simp add: fillna_def)
  have r: "replicate 10 (Fin 0) = Fin 0 # replicate 9 (Fin (0::real))"
    by (simp add: numeral_eq_Suc)
  show ?thesis
    unfolding obv_def Let_def p f cumsum_def
    by (simp add: cumsum_from_zeros r del: replicate_Suc)
qed

lemma fl_max_idem: "fl_max (fl_max a x) x = fl_max a x"
  by (cases a; cases x) (simp_all add: fl_max_def)

lemma foldl_fl_max_replicate:
  "foldl fl_max a (replicate k x) = (if k = 0 then a else fl_max a x)"
  by (induction k arbitrary: a) (simp_all add: fl_max_idem)

lemma enrich_twin:
  "enrich_with_snapshot reads_digit twin_candles (snap_full 50000) = Inr twin_spike_frame"
  by (simp add: enrich_with_snapshot_def snapshot_liq_usd_def snapshot_px_def
      snapshot_mcap_def twin_candles_def twin_spike_frame_def snap_full_def pair_get_def
      pair_get_dict_def reads_digit_def)

lemma guards_twin: "guards twin_spike_frame = Inr True"
proof -
  have "iloc_last (rolling 20 win_mean (replicate 60 (Fin 5000))) = Inr (Fin 5000)"
    by (rule last_rolling_mean_replicate) simp_all
  then show ?thesis
    by (simp add: guards_def twin_spike_frame_def iloc_last_replicate MIN_ABS_VOLUME_USD_def
        MIN_LIQ_USD_def)
qed

lemma rule_ema_twin: "rule_ema_cross twin_spike_frame = Inr (False, [(''vol_mult'', Fin 1)])"
proof -
  obtain b where b: "ema_cross (map Fin twin_spike) = Inr b"
    using ema_cross_returns [of "map Fin twin_spike"] by (auto simp: twin_spike_length)
  have f: "fillna 0 (replicate 60 (Fin 5000)) = replicate 60 (Fin 5000)"
    by (simp add: fillna_def)
  have avg: "iloc_last (rolling 20 win_mean (replicate 60 (Fin 5000))) = Inr (Fin 5000)"
    by (rule last_rolling_mean_replicate) simp_all
  show ?thesis
    by (simp add: rule_ema_cross_def col_def twin_spike_frame_def f b ema_vavg_def avg
        iloc_last_replicate VOL_MULT_CONFIRM_def)
qed

lemma rule_rsi_twin: "rule_rsi_reclaim twin_spike_frame = Inr (True, [(''rsi'', Fin (200 / 3))])"
  by (simp add: rule_rsi_reclaim_def rule_rsi_reclaim_level_def col_def twin_spike_frame_def
      twin_rsi)

lemma rule_obv_twin: "rule_obv_leads twin_spike_frame = Inr (False, [])"
proof -
  let ?ob = "replicate 48 (Fin 0) @ Fin 5000 # replicate 10 (Fin 0) @ [Fin 5000]"
  have w: "take 50 (drop (58 + 1 - 50) ?ob) = replicate 39 (Fin 0) @ Fin 5000 # replicate 10 (Fin 0)"
    by simp
  have "rolling 50 win_max ?ob ! 58 = Fin 5000"
    by (simp add: rolling_nth win_max_def foldl_fl_max_replicate fl_max_def list_ex_iff
        del: replicate_Suc)
  then have omax: "iloc_prev (rolling 50 win_max ?ob) = Inr (Fin 5000)"
    by (simp add: iloc_prev_def)
  have olast: "iloc_last ?ob = Inr (Fin 5000)" by (simp add: iloc_last_def)
  have c2: "2 \<le> length (rolling 50 win_max (map Fin twin_spike))"
    by (simp add: twin_spike_length)
  have cl: "iloc_last (map Fin twin_spike) = Inr (Fin 21)"
    by (simp add: iloc_last_def twin_spike_def)
  show ?thesis
    by (simp add: rule_obv_leads_def col_def twin_spike_frame_def twin_obv Let_def omax olast
        cl iloc_prev_nth [OF c2] del: replicate_Suc)
qed

lemma rule_mcap_twin: "rule_mcap_roc twin_spike_frame = Inr (False, [(''roc%'', Fin 0)])"
  by (subst rule_mcap_roc_replicate [where n = 60 and m = "Fin 1000"])
     (simp_all add: twin_spike_frame_def finite_nonzero_def)

lemma hits_twin:
  "run_rules rules twin_spike_frame [] = [''rule_boll_breakout'', ''rule_rsi_reclaim'']"
  by (simp add: hits_rules rules_def rule_passes_def rule_ema_twin twin_rule rule_rsi_twin
      rule_obv_twin rule_mcap_twin)

lemma build_alert_twin:
  "build_alert reads_no_int (JStr ''?'') hits twin_spike_frame
     = Inr \<lparr>symbol = JStr ''?'', signals = hits, price = Fin 21, vol20avg = Fin 5000,
            liq = 50000, mcap_roc = Some (Fin 0)\<rparr>"
proof -
  have avg: "iloc_last (rolling 20 win_mean (replicate 60 (Fin 5000))) = Inr (Fin 5000)"
    by (rule last_rolling_mean_replicate) simp_all
  have cl: "iloc_last (map Fin twin_spike) = Inr (Fin 21)"
    by (simp add: iloc_last_def twin_spike_def)
  show ?thesis
    by (simp add: build_alert_def ebind_def col_def twin_spike_frame_def iloc_last_replicate
        avg cl pct_change_def iloc_last_map_upt ROC_WINDOW_def)
qed

lemma aggregate_twin:
  "aggregate reads_no_int rules (JStr ''?'') twin_spike_frame
     = Inr (Some \<lparr>symbol = JStr ''?'',
                  signals = [''rule_boll_breakout'', ''rule_rsi_reclaim''], price = Fin 21,
                  vol20avg = Fin 5000, liq = 50000, mcap_roc = Some (Fin 0)\<rparr>)"
  by (simp add: aggregate_def hits_twin build_alert_twin MIN_SIGNALS_REQUIRED_def ebind_def
      del: run_rules.simps)

lemma scan_twin:
  "scan_pair twin_source reads_digit reads_no_int (snap_full 50000)
     = Inr [Fetched (Scalar (JStr ''A'')),
            Alert \<lparr>symbol = JStr ''?'',
                   signals = [''rule_boll_breakout'', ''rule_rsi_reclaim''], price = Fin 21,
                   vol20avg = Fin 5000, liq = 50000, mcap_roc = Some (Fin 0)\<rparr>]"
proof -
  have sy: "pair_symbol (snap_full 50000) = Inr (JStr ''?'')"
    by (rule pair_symbol_default) (simp add: snap_full_def)
  have ad: "pair_get (snap_full 50000) ''pairAddress'' = Scalar (JStr ''A'')"
    by (simp add: pair_get_def snap_full_def)
  have ne: "\<not> df_empty twin_candles" "\<not> nrows twin_candles < 60"
    by (simp_all add: df_empty_def twin_candles_def)
  show ?thesis
    by (simp add: scan_pair_def sy ad twin_source_def ne ebind_def enrich_twin guards_twin
        aggregate_twin)
qed

lemma rising_rules:
  "rule_ema_cross rising_candles = Inl (KeyError ''volumeUsd'')"
  "rule_boll_breakout rising_candles = Inr (False, [])"
  "rule_rsi_reclaim rising_candles = Inr (True, [(''rsi'', Fin (100 - 100 / (1 + 10 ^ 9)))])"
  "rule_obv_leads rising_candles = Inr (False, [])"
  "rule_mcap_roc rising_candles = Inr (False, [])"
proof -
  have len: "length (map Fin rising15) = 15" by (simp add: rising15_def)
  show "rule_ema_cross rising_candles = Inl (KeyError ''volumeUsd'')"
    by (simp add: rule_ema_cross_def col_def rising_candles_def)
  show "rule_boll_breakout rising_candles = Inr (False, [])"
    by (rule rule_boll_short [where c = "map Fin rising15"])
       (simp_all add: rising_candles_def rising15_def)
  have ne: "rsi (map Fin rising15) 14 \<noteq> []"
    using length_rsi(2) [of "map Fin rising15" 14] len by (auto simp del: length_rsi)
  have "iloc_last (rsi (map Fin rising15) 14) = Inr (Fin (100 - 100 / (1 + 10 ^ 9)))"
    using rsi_rising15 len by (simp add: iloc_last_nth [OF ne])
  then show "rule_rsi_reclaim rising_candles
      = Inr (True, [(''rsi'', Fin (100 - 100 / (1 + 10 ^ 9)))])"
    by (simp add: rule_rsi_reclaim_def rule_rsi_reclaim_level_def col_def rising_candles_def)
  show "rule_obv_leads rising_candles = Inr (False, [])"
    by (rule rule_obv_short [where c = "map Fin rising15" and v = "replicate 15 (Fin 5000)"])
       (simp_all add: rising_candles_def rising15_def)
  show "rule_mcap_roc rising_candles = Inr (False, [])"
    by (simp add: rule_mcap_roc_def rule_mcap_roc_thr_def rising_candles_def)
qed

theorem rule_exception_isolated_witness:
  "rule_ema_cross ((flat_enriched 60 1 5000 (Fin 1) (JNum 50000) (Fin 1000))\<lparr>close := None\<rparr>)
     = Inl (KeyError ''close'')
   \<and> run_rules rules
        ((flat_enriched 60 1 5000 (Fin 1) (JNum 50000) (Fin 1000))\<lparr>close := None\<rparr>) [] = []
   \<and> aggregate reads_no_int rules (JStr ''?'')
        ((flat_enriched 60 1 5000 (Fin 1) (JNum 50000) (Fin 1000))\<lparr>close := None\<rparr>)
     = Inr None
   \<and> rule_ema_cross rising_candles = Inl (KeyError ''volumeUsd'')
   \<and> run_rules rules rising_candles [] = [''rule_rsi_reclaim'']"
proof -
  let ?df = "(flat_enriched 60 1 5000 (Fin 1) (JNum 50000) (Fin 1000))\<lparr>close := None\<rparr>"
  have cl: "close ?df = None" by (simp add: flat_enriched_def)
  have mc: "mcap ?df = Some (replicate 60 (Fin 1000))" by (simp add: flat_enriched_def)
  have raise: "rule_ema_cross ?df = Inl (KeyError ''close'')"
    by (simp add: rule_ema_cross_def col_def cl)
  have others: "\<not> rule_passes rule_boll_breakout ?df" "\<not> rule_passes rule_rsi_reclaim ?df"
    "\<not> rule_passes rule_obv_leads ?df" "\<not> rule_passes rule_mcap_roc ?df"
    using rules_need_close [of ?df] mcap_rule_never_passes [OF mc] cl by simp_all
  from rule_exception_isolated [where f = rule_ema_cross and df = ?df
      and e = "KeyError ''close''" and fs = "[]" and name = "''rule_ema_cross''"
      and gs = "[(''rule_boll_breakout'', rule_boll_breakout),
        (''rule_rsi_reclaim'', rule_rsi_reclaim), (''rule_obv_leads'', rule_obv_leads),
        (''rule_mcap_roc'', rule_mcap_roc)]"
      and hits = "[]" and ?s2i = reads_no_int and symb = "JStr ''?''", OF raise,
      THEN conjunct2, THEN conjunct1, folded rules_split]
  have hits: "run_rules rules ?df [] = []"
    using others by (simp del: run_rules.simps)
  from rule_exception_isolated [where f = rule_ema_cross and df = rising_candles
      and e = "KeyError ''volumeUsd''" and fs = "[]" and name = "''rule_ema_cross''"
      and gs = "[(''rule_boll_breakout'', rule_boll_breakout),
        (''rule_rsi_reclaim'', rule_rsi_reclaim), (''rule_obv_leads'', rule_obv_leads),
        (''rule_mcap_roc'', rule_mcap_roc)]"
      and hits = "[]" and ?s2i = reads_no_int and symb = "JStr ''?''", OF rising_rules(1),
      THEN conjunct2, THEN conjunct1, folded rules_split]
  have hits2: "run_rules rules rising_candles [] = [''rule_rsi_reclaim'']"
    by (simp add: rule_passes_def rising_rules del: run_rules.simps)
  have agg: "aggregate reads_no_int rules (JStr ''?'') ?df = Inr None"
    using hits by (simp add: aggregate_def MIN_SIGNALS_REQUIRED_def del: run_rules.simps)
  show ?thesis by (intro conjI raise hits agg rising_rules(1) hits2)
qed


text \<open>
  C2 (the code at the failing input). On the sixty closes of \<open>twin_spike\<close> there are 41
  valid bandwidth observations. The code takes the percentile over the twelve bandwidths
  from the first complete window of thirty on (bars 48 to 59), finds the current
  bandwidth at or below it, declares a squeeze and, the last close being above the
  upper band, fires. The 20th percentile of the last thirty bandwidth values (bars 30 to
  59) is zero and the current bandwidth is above it: by the words of the specification
  there is no squeeze. In a scan the pair raises an alert that names the rule.
\<close>

theorem squeeze_over_all_windows_not_last30:
  "boll_squeeze (map Fin twin_spike) = Inr True
   \<and> rule_boll_breakout twin_spike_frame = Inr (True, [])
   \<and> length (dropna (boll_bw (map Fin twin_spike))) = 41
   \<and> \<not> squeeze_last30 (map Fin twin_spike)
   \<and> scan_once (Inr [snap_full 50000]) twin_source reads_digit reads_no_int
     = ([Fetched (Scalar (JStr ''A'')),
         Alert \<lparr>symbol = JStr ''?'',
                signals = [''rule_boll_breakout'', ''rule_rsi_reclaim''], price = Fin 21,
                vol20avg = Fin 5000, liq = 50000, mcap_roc = Some (Fin 0)\<rparr>], None)"
proof -
  have "scan_once (Inr [snap_full 50000]) twin_source reads_digit reads_no_int
     = ([Fetched (Scalar (JStr ''A'')),
         Alert \<lparr>symbol = JStr ''?'',
                signals = [''rule_boll_breakout'', ''rule_rsi_reclaim''], price = Fin 21,
                vol20avg = Fin 5000, liq = 50000, mcap_roc = Some (Fin 0)\<rparr>], None)"
    by (simp add: scan_once_def PAIRS_PER_SCAN_def scan_twin)
  then show ?thesis
    by (intro conjI twin_squeeze twin_rule twin_valid_count twin_spec)
qed

end
